theory Spec2Isabelle
  imports Complex_Main
begin

section \<open>Python floats\<close>

text \<open>
  The extractor computes with Python \<open>float\<close>s, which are IEEE 754 binary64 values.
  A float is modelled by the rational number it denotes, or one of the three special
  values. The two signed zeros compare equal in Python and are both \<open>Fin 0\<close> here.
  Arithmetic rounds to the nearest binary64 value, ties to the even significand.
\<close>

datatype pyfloat = Fin rat | PInf | NInf | NaN

fun bit_length :: "nat \<Rightarrow> nat" where
  "bit_length n = (if n = 0 then 0 else Suc (bit_length (n div 2)))"

declare bit_length.simps [simp del]

definition pow2 :: "int \<Rightarrow> rat" where
  "pow2 e = (if 0 \<le> e then 2 ^ nat e else 1 / 2 ^ nat (- e))"

definition ilog2 :: "rat \<Rightarrow> int" where
  \<comment> \<open>for \<open>0 < a\<close>: the exponent \<open>e\<close> with \<open>2^e \<le> a < 2^(e+1)\<close>\<close>
  "ilog2 a = (if 1 \<le> a then int (bit_length (nat \<lfloor>a\<rfloor>)) - 1
              else - int (bit_length (nat (\<lceil>1 / a\<rceil> - 1))))"

definition round_half_even :: "rat \<Rightarrow> int" where
  "round_half_even q =
     (let f = \<lfloor>q\<rfloor>; r = q - of_int f
      in if r < 1 / 2 then f else if 1 / 2 < r then f + 1
         else if even f then f else f + 1)"

definition round_double :: "rat \<Rightarrow> pyfloat" where
  \<comment> \<open>53 significant bits, least exponent \<open>-1022\<close> (below it the spacing stays
      \<open>2^-1074\<close>), overflow to infinity from \<open>2^1024\<close> on\<close>
  "round_double x =
     (if x = 0 then Fin 0
      else let a = \<bar>x\<bar>;
               e = max (ilog2 a) (- 1022);
               u = pow2 (e - 52);
               r = of_int (round_half_even (a / u)) * u
           in if pow2 1024 \<le> r then (if 0 < x then PInf else NInf)
              else Fin (if 0 < x then r else - r))"

fun fadd :: "pyfloat \<Rightarrow> pyfloat \<Rightarrow> pyfloat" where
  "fadd (Fin a) (Fin b) = round_double (a + b)"
| "fadd NaN _ = NaN"
| "fadd _ NaN = NaN"
| "fadd PInf NInf = NaN"
| "fadd NInf PInf = NaN"
| "fadd PInf _ = PInf"
| "fadd _ PInf = PInf"
| "fadd NInf _ = NInf"
| "fadd _ NInf = NInf"

fun flt :: "pyfloat \<Rightarrow> pyfloat \<Rightarrow> bool" where
  "flt (Fin a) (Fin b) = (a < b)"
| "flt NaN _ = False"
| "flt _ NaN = False"
| "flt _ NInf = False"
| "flt NInf _ = True"
| "flt PInf _ = False"
| "flt _ PInf = True"

fun feq :: "pyfloat \<Rightarrow> pyfloat \<Rightarrow> bool" where
  "feq (Fin a) (Fin b) = (a = b)"
| "feq PInf PInf = True"
| "feq NInf NInf = True"
| "feq _ _ = False"

definition fle :: "pyfloat \<Rightarrow> pyfloat \<Rightarrow> bool" where
  "fle a b = (flt a b \<or> feq a b)"

section \<open>Exceptions\<close>

datatype py_exception = ValueError string | RuntimeError string | OSError string

fun str_exc :: "py_exception \<Rightarrow> string" where
  "str_exc (ValueError m) = m"
| "str_exc (RuntimeError m) = m"
| "str_exc (OSError m) = m"

section \<open>The timestamp scheduler\<close>

text \<open>
  The set \<open>timestamps\<close> is a list without duplicates (Python compares members with
  \<open>==\<close>); \<open>sorted\<close> is an insertion sort by \<open><\<close>, which is what any comparison sort
  returns when \<open><\<close> is a strict total order on the elements; that is the case here,
  as no NaN passes the loop test. The \<open>while\<close> loop need not finish in float arithmetic
  (\<open>cursor + interval\<close> may round back to \<open>cursor\<close>), so not returning is the value
  \<open>None\<close>.
\<close>

definition set_add :: "pyfloat \<Rightarrow> pyfloat list \<Rightarrow> pyfloat list" where
  "set_add x s = (if list_ex (feq x) s then s else s @ [x])"

fun insort_py :: "pyfloat \<Rightarrow> pyfloat list \<Rightarrow> pyfloat list" where
  "insort_py x [] = [x]"
| "insort_py x (y # ys) = (if flt x y then x # y # ys else y # insort_py x ys)"

definition sorted_py :: "pyfloat list \<Rightarrow> pyfloat list" where
  "sorted_py xs = foldl (\<lambda>acc x. insort_py x acc) [] xs"

partial_function (option) timestamps_loop ::
  "pyfloat \<Rightarrow> pyfloat \<Rightarrow> pyfloat \<Rightarrow> pyfloat list \<Rightarrow> pyfloat list option" where
  "timestamps_loop duration_seconds interval_seconds cursor timestamps =
     (if flt cursor duration_seconds
      then timestamps_loop duration_seconds interval_seconds
             (fadd cursor interval_seconds) (set_add cursor timestamps)
      else Some timestamps)"

definition build_timestamps :: "pyfloat \<Rightarrow> pyfloat \<Rightarrow> (py_exception + pyfloat list) option" where
  "build_timestamps duration_seconds interval_seconds =
     (if fle interval_seconds (Fin 0)
      then Some (Inl (ValueError ''time_interval must be greater than 0''))
      else if fle duration_seconds (Fin 0) then Some (Inr [Fin 0])
      else map_option (\<lambda>timestamps. Inr (sorted_py timestamps))
             (timestamps_loop duration_seconds interval_seconds interval_seconds [Fin 0]))"

section \<open>Paths and strings\<close>

text \<open>
  A \<open>pathlib.Path\<close> is its anchor (\<open>''/''\<close> for an absolute path, empty otherwise) and
  its list of components. Only the operations the extractor uses are modelled.
\<close>

record path =
  anchor :: string
  parts :: "string list"

fun join_sep :: "string list \<Rightarrow> string" where
  "join_sep [] = []"
| "join_sep [x] = x"
| "join_sep (x # y # ys) = x @ ''/'' @ join_sep (y # ys)"

definition path_str :: "path \<Rightarrow> string" where
  "path_str p = (if anchor p = [] \<and> parts p = [] then ''.'' else anchor p @ join_sep (parts p))"

definition path_name :: "path \<Rightarrow> string" where
  "path_name p = (if parts p = [] then [] else last (parts p))"

definition path_parent :: "path \<Rightarrow> path" where
  "path_parent p = p\<lparr>parts := butlast (parts p)\<rparr>"

definition path_stem :: "path \<Rightarrow> string" where
  \<comment> \<open>the name without its last suffix; a leading or a trailing dot starts no suffix\<close>
  "path_stem p =
     (let name = path_name p;
          after = length (takeWhile (\<lambda>c. c \<noteq> CHR ''.'') (rev name))
      in if CHR ''.'' \<in> set name \<and> 0 < after \<and> Suc after < length name
         then take (length name - Suc after) name else name)"

definition joinpath :: "path \<Rightarrow> string \<Rightarrow> path" where
  \<comment> \<open>\<open>p / name\<close> for a single relative component\<close>
  "joinpath p name = (if name = [] then p else p\<lparr>parts := parts p @ [name]\<rparr>)"

definition is_space :: "char \<Rightarrow> bool" where
  "is_space c = ((of_char c :: nat) \<in> {9, 10, 11, 12, 13, 28, 29, 30, 31, 32, 133, 160})"

definition strip :: "string \<Rightarrow> string" where
  "strip s = rev (dropWhile is_space (rev (dropWhile is_space s)))"

definition or_else :: "string \<Rightarrow> string \<Rightarrow> string" where
  \<comment> \<open>Python's \<open>a or b\<close> on strings: the empty string is false\<close>
  "or_else a b = (if a = [] then b else a)"

fun str_nat :: "nat \<Rightarrow> string" where
  "str_nat n = (if n < 10 then [''0123456789'' ! n]
                else str_nat (n div 10) @ [''0123456789'' ! (n mod 10)])"

declare str_nat.simps [simp del]

definition zfill :: "nat \<Rightarrow> string \<Rightarrow> string" where
  "zfill w s = replicate (w - length s) CHR ''0'' @ s"

definition fmt_3f :: "pyfloat \<Rightarrow> string" where
  \<comment> \<open>\<open>f"{x:.3f}"\<close>: the exact value rounded to three decimals, ties to even\<close>
  "fmt_3f x = (case x of
       Fin r \<Rightarrow> (let n = nat (round_half_even (\<bar>r\<bar> * 1000))
                 in (if r < 0 then ''-'' else []) @ str_nat (n div 1000) @ ''.''
                    @ zfill 3 (str_nat (n mod 1000)))
     | PInf \<Rightarrow> ''inf'' | NInf \<Rightarrow> ''-inf'' | NaN \<Rightarrow> ''nan'')"

definition output_frame_name :: "nat \<Rightarrow> pyfloat \<Rightarrow> string" where
  "output_frame_name index timestamp =
     (let ts = map (\<lambda>c. if c = CHR ''.'' then CHR ''p'' else c) (fmt_3f timestamp)
      in ''frame_'' @ zfill 6 (str_nat index) @ ''_t'' @ ts @ ''.jpg'')"

section \<open>The collaborator and the file system\<close>

record completed_process =
  returncode :: int
  stdout :: string
  stderr :: string

text \<open>
  What the program cannot decide by itself comes from the world it runs in: the outcome
  of each subprocess, of \<open>mkdir\<close>, and of the test
  \<open>frame_path.exists() and frame_path.stat().st_size > 0\<close> made right after a render
  (\<open>Inl\<close> when the test itself raises). \<open>parse_float\<close> and \<open>float_str\<close> are Python's
  \<open>float(s)\<close> and \<open>str(x)\<close>. For the QA sampler, \<open>dir_exists\<close> is \<open>Path.exists\<close>,
  \<open>list_jpgs folder\<close> is \<open>sorted(folder.glob("*.jpg"))\<close>, and \<open>validate_jpg\<close> is the
  verdict of the function of that name, which asks ffprobe about one image.
\<close>

record world =
  run_command :: "string list \<Rightarrow> completed_process"
  mkdir :: "path \<Rightarrow> py_exception option"
  frame_written :: "path \<Rightarrow> py_exception + bool"
  parse_float :: "string \<Rightarrow> pyfloat option"
  float_str :: "pyfloat \<Rightarrow> string"
  dir_exists :: "path \<Rightarrow> bool"
  list_jpgs :: "path \<Rightarrow> path list"
  validate_jpg :: "path \<Rightarrow> bool \<times> string"

section \<open>Probing and rendering\<close>

record VideoResult =
  video_path :: path
  output_dir :: path
  requested_frames :: int
  written_frames :: int
  errors :: "string list"

definition is_finite :: "pyfloat \<Rightarrow> bool" where
  "is_finite x = (case x of Fin _ \<Rightarrow> True | _ \<Rightarrow> False)"

definition probe_duration_seconds :: "world \<Rightarrow> path \<Rightarrow> py_exception + pyfloat" where
  "probe_duration_seconds w video =
     (let command = [''ffprobe'', ''-v'', ''error'', ''-show_entries'', ''format=duration'',
                     ''-of'', ''default=noprint_wrappers=1:nokey=1'', path_str video];
          result = run_command w command
      in if returncode result \<noteq> 0
         then Inl (RuntimeError (or_else (strip (stderr result))
                     ''ffprobe failed while probing duration''))
         else let val = strip (stdout result)
              in case parse_float w val of
                   None \<Rightarrow> Inl (RuntimeError (''Unexpected ffprobe duration output: '' @ val))
                 | Some duration \<Rightarrow>
                     if \<not> is_finite duration \<or> flt duration (Fin 0)
                     then Inl (RuntimeError (''Invalid duration detected: '' @ float_str w duration))
                     else Inr duration)"

definition extract_one_frame :: "world \<Rightarrow> path \<Rightarrow> pyfloat \<Rightarrow> path \<Rightarrow> py_exception + unit" where
  "extract_one_frame w video timestamp output_path =
     (let command = [''ffmpeg'', ''-hide_banner'', ''-loglevel'', ''error'', ''-y'', ''-ss'',
                     fmt_3f timestamp, ''-i'', path_str video, ''-frames:v'', ''1'',
                     ''-q:v'', ''2'', path_str output_path];
          result = run_command w command
      in if returncode result \<noteq> 0
         then Inl (RuntimeError (or_else (strip (stderr result)) ''ffmpeg frame extraction failed''))
         else Inr ())"

definition extract_last_frame :: "world \<Rightarrow> path \<Rightarrow> path \<Rightarrow> py_exception + unit" where
  "extract_last_frame w video output_path =
     (let command = [''ffmpeg'', ''-hide_banner'', ''-loglevel'', ''error'', ''-y'', ''-sseof'',
                     ''-3'', ''-i'', path_str video, ''-frames:v'', ''1'', ''-q:v'', ''2'',
                     ''-update'', ''1'', path_str output_path];
          result = run_command w command
      in if returncode result \<noteq> 0
         then Inl (RuntimeError (or_else (strip (stderr result))
                     ''ffmpeg last-frame extraction failed''))
         else Inr ())"

section \<open>The video job runner\<close>

text \<open>
  \<open>convert_video\<close> mutates \<open>errors\<close> and \<open>written\<close>; the model passes them along in a
  record. The record also logs each call of a render function, so that "is attempted"
  can be stated; the log is not data of the program.
\<close>

datatype render_call = ExtractOneFrame path pyfloat path | ExtractLastFrame path path

record job_state =
  js_errors :: "string list"
  js_written :: int
  js_calls :: "render_call list"

definition after_render :: "world \<Rightarrow> path \<Rightarrow> py_exception + unit \<Rightarrow> job_state \<Rightarrow> job_state" where
  \<comment> \<open>the body of one \<open>try\<close>/\<open>except\<close>, given how the render call ended\<close>
  "after_render w frame_path rendered st =
     (case rendered of
        Inl exc \<Rightarrow> st\<lparr>js_errors := js_errors st @ [path_name frame_path @ '': '' @ str_exc exc]\<rparr>
      | Inr _ \<Rightarrow>
          (case frame_written w frame_path of
             Inl exc \<Rightarrow>
               st\<lparr>js_errors := js_errors st @ [path_name frame_path @ '': '' @ str_exc exc]\<rparr>
           | Inr True \<Rightarrow> st\<lparr>js_written := js_written st + 1\<rparr>
           | Inr False \<Rightarrow>
               st\<lparr>js_errors := js_errors st @ [''Empty frame output: '' @ path_str frame_path]\<rparr>))"

definition render_one :: "world \<Rightarrow> path \<Rightarrow> path \<Rightarrow> nat \<Rightarrow> pyfloat \<Rightarrow> job_state \<Rightarrow> job_state" where
  "render_one w video out_dir index timestamp st =
     (let frame_path = joinpath out_dir (output_frame_name index timestamp)
      in after_render w frame_path (extract_one_frame w video timestamp frame_path)
           (st\<lparr>js_calls := js_calls st @ [ExtractOneFrame video timestamp frame_path]\<rparr>))"

fun render_frames ::
  "world \<Rightarrow> path \<Rightarrow> path \<Rightarrow> nat \<Rightarrow> pyfloat list \<Rightarrow> job_state \<Rightarrow> job_state" where
  \<comment> \<open>\<open>for index, timestamp in enumerate(timestamps, start=index)\<close>\<close>
  "render_frames w video out_dir index [] st = st"
| "render_frames w video out_dir index (timestamp # rest) st =
     render_frames w video out_dir (Suc index) rest (render_one w video out_dir index timestamp st)"

definition render_last :: "world \<Rightarrow> path \<Rightarrow> path \<Rightarrow> nat \<Rightarrow> pyfloat \<Rightarrow> job_state \<Rightarrow> job_state" where
  "render_last w video out_dir index duration st =
     (let last_frame_path = joinpath out_dir (output_frame_name index duration)
      in after_render w last_frame_path (extract_last_frame w video last_frame_path)
           (st\<lparr>js_calls := js_calls st @ [ExtractLastFrame video last_frame_path]\<rparr>))"

definition video_output_dir :: "path \<Rightarrow> path option \<Rightarrow> path" where
  "video_output_dir video output_root =
     (case output_root of
        Some out_root \<Rightarrow> joinpath out_root (path_stem video)
      | None \<Rightarrow> joinpath (path_parent video) (path_stem video))"

definition convert_video ::
  "world \<Rightarrow> path \<Rightarrow> pyfloat \<Rightarrow> path option
     \<Rightarrow> ((py_exception + VideoResult) \<times> render_call list) option" where
  \<comment> \<open>\<open>None\<close>: the scheduler does not return. \<open>Inl\<close>: \<open>mkdir\<close> raised, and so does
      \<open>convert_video\<close>.\<close>
  "convert_video w video interval_seconds output_root =
     (let out_dir = video_output_dir video output_root
      in case mkdir w out_dir of
           Some exc \<Rightarrow> Some (Inl exc, [])
         | None \<Rightarrow>
            (case probe_duration_seconds w video of
               Inl exc \<Rightarrow>
                 Some (Inr \<lparr>video_path = video, output_dir = out_dir, requested_frames = 0,
                            written_frames = 0, errors = [str_exc exc]\<rparr>, [])
             | Inr duration \<Rightarrow>
                (case build_timestamps duration interval_seconds of
                   None \<Rightarrow> None
                 | Some (Inl exc) \<Rightarrow>
                     Some (Inr \<lparr>video_path = video, output_dir = out_dir, requested_frames = 0,
                                written_frames = 0, errors = [str_exc exc]\<rparr>, [])
                 | Some (Inr timestamps) \<Rightarrow>
                     (let st0 = \<lparr>js_errors = [], js_written = 0, js_calls = []\<rparr>;
                          st1 = render_frames w video out_dir 1 timestamps st0;
                          st2 = render_last w video out_dir (length timestamps + 1) duration st1
                      in Some (Inr \<lparr>video_path = video, output_dir = out_dir,
                                     requested_frames = int (length timestamps) + 1,
                                     written_frames = js_written st2,
                                     errors = js_errors st2\<rparr>, js_calls st2)))))"

section \<open>The end of the batch\<close>

text \<open>
  What \<open>main\<close> does once the worker pool has drained and \<open>results\<close> holds the
  \<open>VideoResult\<close>s it collected: the totals, the videos with issues, the QA sampling
  and the exit code. An exception that \<open>main\<close> does not catch ends the process with
  status 1.
\<close>

definition total_requested :: "VideoResult list \<Rightarrow> int" where
  "total_requested results = sum_list (map requested_frames results)"

definition total_written :: "VideoResult list \<Rightarrow> int" where
  "total_written results = sum_list (map written_frames results)"

definition failed_videos :: "VideoResult list \<Rightarrow> VideoResult list" where
  "failed_videos results = filter (\<lambda>res. written_frames res = 0 \<or> errors res \<noteq> []) results"

section \<open>The QA sampler\<close>

text \<open>
  \<open>random.Random\<close> is the standard library's generator: \<open>seed_rng\<close> builds its state
  from the seed, and \<open>draw g population k\<close> is what \<open>sample\<close> selects for
  \<open>0 \<le> k \<le> len(population)\<close>, with the state it leaves; outside that range
  \<open>sample\<close> raises \<open>ValueError\<close>.
\<close>

record 'g random_lib =
  seed_rng :: "int \<Rightarrow> 'g"
  draw :: "'g \<Rightarrow> path list \<Rightarrow> nat \<Rightarrow> path list \<times> 'g"

definition rng_sample ::
  "'g random_lib \<Rightarrow> 'g \<Rightarrow> path list \<Rightarrow> int \<Rightarrow> py_exception + (path list \<times> 'g)" where
  "rng_sample lib g population k =
     (if 0 \<le> k \<and> k \<le> int (length population)
      then Inr (draw lib g population (nat k))
      else Inl (ValueError ''Sample larger than population or is negative''))"

datatype qa_call = SampleDirs "path list" | SampleImages path "path list" | ValidateJpg path

record 'g qa_state =
  qa_rng :: 'g
  qa_checked :: int
  qa_passed :: int
  qa_messages :: "string list"
  qa_calls :: "qa_call list"

fun validate_images :: "world \<Rightarrow> path list \<Rightarrow> 'g qa_state \<Rightarrow> 'g qa_state" where
  "validate_images w [] st = st"
| "validate_images w (image_path # rest) st =
     validate_images w rest
       (let (ok, detail) = validate_jpg w image_path;
            st1 = st\<lparr>qa_checked := qa_checked st + 1,
                     qa_calls := qa_calls st @ [ValidateJpg image_path]\<rparr>
        in if ok
           then st1\<lparr>qa_passed := qa_passed st1 + 1,
                    qa_messages := qa_messages st1
                      @ [''[OK] '' @ path_str image_path @ '' -> '' @ detail]\<rparr>
           else st1\<lparr>qa_messages := qa_messages st1
                      @ [''[FAIL] '' @ path_str image_path @ '' -> '' @ detail]\<rparr>)"

fun sample_folders ::
  "'g random_lib \<Rightarrow> world \<Rightarrow> int \<Rightarrow> path list \<Rightarrow> 'g qa_state
     \<Rightarrow> py_exception option \<times> 'g qa_state" where
  \<comment> \<open>the loop over \<open>chosen_dirs\<close>; the first component is the exception that ended it\<close>
  "sample_folders lib w sample_images_per_dir [] st = (None, st)"
| "sample_folders lib w sample_images_per_dir (folder # rest) st =
     (let images = list_jpgs w folder
      in if images = []
         then sample_folders lib w sample_images_per_dir rest
                (st\<lparr>qa_messages := qa_messages st
                   @ [''[WARN] No JPG images found in sampled folder: '' @ path_str folder]\<rparr>)
         else (case rng_sample lib (qa_rng st) images
                      (min sample_images_per_dir (int (length images))) of
                 Inl exc \<Rightarrow> (Some exc, st)
               | Inr (chosen_images, g) \<Rightarrow>
                   sample_folders lib w sample_images_per_dir rest
                     (validate_images w chosen_images
                        (st\<lparr>qa_rng := g,
                            qa_calls := qa_calls st @ [SampleImages folder chosen_images]\<rparr>))))"

definition candidate_dirs :: "world \<Rightarrow> VideoResult list \<Rightarrow> path list" where
  "candidate_dirs w results =
     map output_dir (filter (\<lambda>res. 0 < written_frames res \<and> dir_exists w (output_dir res)) results)"

definition run_quality_sampling ::
  "'g random_lib \<Rightarrow> world \<Rightarrow> VideoResult list \<Rightarrow> int \<Rightarrow> int \<Rightarrow> int
     \<Rightarrow> (py_exception + int \<times> int \<times> string list) \<times> qa_call list" where
  \<comment> \<open>the value returned (\<open>Inl\<close>: the exception raised), and the calls made\<close>
  "run_quality_sampling lib w results sample_dirs sample_images_per_dir seed =
     (let rng = seed_rng lib seed;
          cands = candidate_dirs w results
      in if cands = []
         then (Inr (0, 0, [''No converted directories available for sampling.'']), [])
         else (case rng_sample lib rng cands (min sample_dirs (int (length cands))) of
                 Inl exc \<Rightarrow> (Inl exc, [])
               | Inr (chosen_dirs, g) \<Rightarrow>
                   (case sample_folders lib w sample_images_per_dir chosen_dirs
                           \<lparr>qa_rng = g, qa_checked = 0, qa_passed = 0, qa_messages = [],
                            qa_calls = [SampleDirs chosen_dirs]\<rparr> of
                      (Some exc, st) \<Rightarrow> (Inl exc, qa_calls st)
                    | (None, st) \<Rightarrow>
                        (Inr (qa_checked st, qa_passed st, qa_messages st), qa_calls st))))"

definition main_exit_code ::
  "'g random_lib \<Rightarrow> world \<Rightarrow> VideoResult list \<Rightarrow> int \<Rightarrow> int \<Rightarrow> int \<Rightarrow> int" where
  \<comment> \<open>the status of the process when \<open>main\<close> reaches the summary with \<open>results\<close>\<close>
  "main_exit_code lib w results sample_dirs sample_images seed =
     (case fst (run_quality_sampling lib w results sample_dirs sample_images seed) of
        Inl exc \<Rightarrow> 1
      | Inr report \<Rightarrow> if failed_videos results \<noteq> [] then 1 else 0)"

section \<open>Notions used to state the claims\<close>

text \<open>
  What one render attempt contributes, read off \<open>after_render\<close>: the message it
  appends to \<open>errors\<close>, or \<open>None\<close> when it counts as written. \<open>scheduled_result\<close> and
  \<open>scheduled_calls\<close> put the attempts of a whole job together; the lemmas
  \<open>render_frames_eq\<close> and \<open>convert_video_scheduled\<close> below prove that
  \<open>convert_video\<close> computes them.
\<close>

fun is_last_frame_call :: "render_call \<Rightarrow> bool" where
  "is_last_frame_call (ExtractLastFrame video p) = True"
| "is_last_frame_call (ExtractOneFrame video t p) = False"

definition last_frame_attempts :: "render_call list \<Rightarrow> nat" where
  "last_frame_attempts calls = length (filter is_last_frame_call calls)"

definition attempt_error :: "world \<Rightarrow> path \<Rightarrow> py_exception + unit \<Rightarrow> string option" where
  \<comment> \<open>the message one render attempt leaves in \<open>errors\<close>, if any\<close>
  "attempt_error w frame_path rendered =
     (case rendered of
        Inl exc \<Rightarrow> Some (path_name frame_path @ '': '' @ str_exc exc)
      | Inr _ \<Rightarrow>
          (case frame_written w frame_path of
             Inl exc \<Rightarrow> Some (path_name frame_path @ '': '' @ str_exc exc)
           | Inr True \<Rightarrow> None
           | Inr False \<Rightarrow> Some (''Empty frame output: '' @ path_str frame_path)))"

definition frame_path_at :: "path \<Rightarrow> nat \<Rightarrow> pyfloat \<Rightarrow> path" where
  "frame_path_at out_dir index timestamp = joinpath out_dir (output_frame_name index timestamp)"

definition one_frame_error :: "world \<Rightarrow> path \<Rightarrow> path \<Rightarrow> nat \<Rightarrow> pyfloat \<Rightarrow> string option" where
  "one_frame_error w video out_dir index timestamp =
     attempt_error w (frame_path_at out_dir index timestamp)
       (extract_one_frame w video timestamp (frame_path_at out_dir index timestamp))"

definition last_frame_error :: "world \<Rightarrow> path \<Rightarrow> path \<Rightarrow> nat \<Rightarrow> pyfloat \<Rightarrow> string option" where
  "last_frame_error w video out_dir index duration =
     attempt_error w (frame_path_at out_dir index duration)
       (extract_last_frame w video (frame_path_at out_dir index duration))"

fun enumerate_from :: "nat \<Rightarrow> 'a list \<Rightarrow> (nat \<times> 'a) list" where
  "enumerate_from n [] = []"
| "enumerate_from n (x # xs) = (n, x) # enumerate_from (Suc n) xs"

fun option_list :: "'a option \<Rightarrow> 'a list" where
  "option_list None = []"
| "option_list (Some x) = [x]"

definition scheduled_result ::
  "world \<Rightarrow> path \<Rightarrow> path \<Rightarrow> pyfloat \<Rightarrow> pyfloat list \<Rightarrow> VideoResult" where
  \<comment> \<open>the result of a job whose probe gave \<open>duration\<close> and whose schedule is \<open>timestamps\<close>\<close>
  "scheduled_result w video out_dir duration timestamps =
     \<lparr>video_path = video, output_dir = out_dir,
      requested_frames = int (length timestamps) + 1,
      written_frames =
        int (length (filter (\<lambda>(k, t). one_frame_error w video out_dir k t = None)
               (enumerate_from 1 timestamps)))
        + (if last_frame_error w video out_dir (length timestamps + 1) duration = None
           then 1 else 0),
      errors =
        concat (map (\<lambda>(k, t). option_list (one_frame_error w video out_dir k t))
                  (enumerate_from 1 timestamps))
        @ option_list (last_frame_error w video out_dir (length timestamps + 1) duration)\<rparr>"

definition scheduled_calls :: "path \<Rightarrow> path \<Rightarrow> pyfloat \<Rightarrow> pyfloat list \<Rightarrow> render_call list" where
  "scheduled_calls video out_dir duration timestamps =
     map (\<lambda>(k, t). ExtractOneFrame video t (frame_path_at out_dir k t)) (enumerate_from 1 timestamps)
     @ [ExtractLastFrame video (frame_path_at out_dir (length timestamps + 1) duration)]"

definition failed_result :: "path \<Rightarrow> path \<Rightarrow> py_exception \<Rightarrow> VideoResult" where
  "failed_result video out_dir exc =
     \<lparr>video_path = video, output_dir = out_dir, requested_frames = 0, written_frames = 0,
      errors = [str_exc exc]\<rparr>"

section \<open>An example run\<close>

text \<open>A 95 second video sampled every 30 seconds, for the closed instances below.\<close>

definition demo_video :: path where
  "demo_video = \<lparr>anchor = ''/'', parts = [''videos'', ''clip.mp4'']\<rparr>"

definition demo_dir :: path where
  "demo_dir = \<lparr>anchor = ''/'', parts = [''videos'', ''clip'']\<rparr>"

definition demo_world :: "bool \<Rightarrow> string list \<Rightarrow> world" where
  \<comment> \<open>\<open>probe_ok\<close> says whether ffprobe succeeds on the video; the renders at the
      timestamps in \<open>failing\<close> (as ffmpeg receives them) fail; the output directory lists
      two images, the second of which does not validate\<close>
  "demo_world probe_ok failing =
     \<lparr>run_command = (\<lambda>command.
        if hd command = ''ffprobe''
        then (if probe_ok then \<lparr>returncode = 0, stdout = ''95.000000\<newline>'', stderr = []\<rparr>
              else \<lparr>returncode = 1, stdout = [], stderr = ''moov atom not found\<newline>''\<rparr>)
        else if command ! 5 = ''-ss'' \<and> command ! 6 \<in> set failing
        then \<lparr>returncode = 1, stdout = [], stderr = ''seek failed\<newline>''\<rparr>
        else \<lparr>returncode = 0, stdout = [], stderr = []\<rparr>),
      mkdir = (\<lambda>p. None),
      frame_written = (\<lambda>p. Inr True),
      parse_float = (\<lambda>s. if s = ''95.000000'' then Some (Fin 95) else None),
      float_str = (\<lambda>x. ''95.0''),
      dir_exists = (\<lambda>p. True),
      list_jpgs = (\<lambda>p. if p = demo_dir
                        then [joinpath demo_dir ''frame_000001_t0p000.jpg'',
                              joinpath demo_dir ''frame_000002_t30p000.jpg'']
                        else []),
      validate_jpg = (\<lambda>p. if path_name p = ''frame_000002_t30p000.jpg''
                           then (False, ''Unexpected codec png'')
                           else (True, ''1920x1080, codec=mjpeg''))\<rparr>"

definition demo_lib :: "int random_lib" where
  \<comment> \<open>a generator that selects the first \<open>k\<close> members\<close>
  "demo_lib = \<lparr>seed_rng = (\<lambda>seed. seed), draw = (\<lambda>g population k. (take k population, g + 1))\<rparr>"

definition demo_result :: "int \<Rightarrow> string list \<Rightarrow> VideoResult" where
  "demo_result written errs =
     \<lparr>video_path = demo_video, output_dir = demo_dir, requested_frames = 5,
      written_frames = written, errors = errs\<rparr>"

section \<open>Notions used in the proofs\<close>

definition not_negative :: "pyfloat \<Rightarrow> bool" where
  "not_negative c = (case c of Fin x \<Rightarrow> 0 \<le> x | PInf \<Rightarrow> True | NInf \<Rightarrow> False | NaN \<Rightarrow> True)"

definition stamps_inv :: "pyfloat \<Rightarrow> pyfloat list \<Rightarrow> bool" where
  \<comment> \<open>the invariant of the scheduler's loop\<close>
  "stamps_inv d ts = (distinct ts \<and> Fin 0 \<in> set ts \<and>
     (\<forall>t\<in>set ts. \<exists>x. t = Fin x \<and> 0 \<le> x \<and> flt t d))"

definition drawn_from_population :: "'g random_lib \<Rightarrow> bool" where
  \<comment> \<open>what \<open>sample\<close> selects are members of the population\<close>
  "drawn_from_population lib =
     (\<forall>g population k. set (fst (draw lib g population k)) \<subseteq> set population)"

section \<open>Evaluation\<close>

text \<open>Rules that let the simplifier run the float operations on numerals.\<close>

lemma bit_length_0: "bit_length 0 = 0"
  by (simp add: bit_length.simps)

lemma bit_length_1: "bit_length (Suc 0) = 1" "bit_length 1 = 1"
  by (simp_all add: bit_length.simps)

lemma bit_length_numeral:
  "bit_length (numeral Num.One) = 1"
  "bit_length (numeral (Num.Bit0 k)) = Suc (bit_length (numeral k))"
  "bit_length (numeral (Num.Bit1 k)) = Suc (bit_length (numeral k))"
proof -
  show "bit_length (numeral Num.One) = 1" by (simp add: bit_length.simps)
  have "(numeral (Num.Bit0 k) :: nat) div 2 = numeral k" by simp
  then show "bit_length (numeral (Num.Bit0 k)) = Suc (bit_length (numeral k))"
    by (subst bit_length.simps) simp
  have "(numeral (Num.Bit1 k) :: nat) div 2 = numeral k" by simp
  then show "bit_length (numeral (Num.Bit1 k)) = Suc (bit_length (numeral k))"
    by (subst bit_length.simps) simp
qed

lemma floor_rat_numeral:
  "\<lfloor>(numeral a :: rat) / numeral b\<rfloor> = numeral a div numeral b"
  "\<lfloor>(1 :: rat) / numeral b\<rfloor> = 1 div numeral b"
  using floor_divide_of_int_eq [of "numeral a" "numeral b", where ?'a = rat]
    floor_divide_of_int_eq [of 1 "numeral b", where ?'a = rat] by simp_all

lemma ceiling_rat_numeral:
  "\<lceil>(numeral a :: rat) / numeral b\<rceil> = - (- numeral a div numeral b)"
  "\<lceil>(1 :: rat) / numeral b\<rceil> = - (- 1 div numeral b)"
  using floor_divide_of_int_eq [of "- numeral a" "numeral b", where ?'a = rat]
    floor_divide_of_int_eq [of "- 1" "numeral b", where ?'a = rat]
  by (simp_all add: ceiling_def)

lemmas float_eval = round_double_def ilog2_def pow2_def round_half_even_def Let_def
  bit_length_0 bit_length_1 bit_length_numeral floor_rat_numeral ceiling_rat_numeral

lemmas sched_eval = build_timestamps_def fle_def set_add_def sorted_py_def

subsection \<open>Rounding keeps the sign\<close>

lemma pow2_pos: "0 < pow2 e"
  by (simp add: pow2_def)

lemma round_half_even_nonneg: "0 \<le> q \<Longrightarrow> 0 \<le> round_half_even q"
  by (auto simp: round_half_even_def Let_def)

lemma round_double_not_negative: "0 \<le> x \<Longrightarrow> not_negative (round_double x)"
proof -
  assume x: "0 \<le> x"
  have "0 \<le> of_int (round_half_even (\<bar>x\<bar> / pow2 e)) * pow2 e" for e
    using pow2_pos [of e] by (simp add: round_half_even_nonneg less_imp_le)
  with x show ?thesis
    by (auto simp: round_double_def not_negative_def Let_def)
qed

lemma fadd_not_negative:
  "not_negative c \<Longrightarrow> not_negative i \<Longrightarrow> not_negative (fadd c i)"
  by (cases c; cases i) (simp_all add: not_negative_def [of "Fin _"] not_negative_def [of PInf]
      not_negative_def [of NInf] not_negative_def [of NaN] round_double_not_negative)

subsection \<open>The loop invariant\<close>

lemma list_ex_feq_Fin: "list_ex (feq (Fin x)) s = (Fin x \<in> set s)"
proof (induction s)
  case Nil
  show ?case by simp
next
  case (Cons y s)
  then show ?case by (cases y) auto
qed

lemma flt_not_negative_Fin:
  assumes "flt c d" and "not_negative c"
  obtains x where "c = Fin x" and "0 \<le> x"
  using assms by (cases c; cases d) (auto simp: not_negative_def)

lemma set_add_inv:
  assumes "stamps_inv d ts" and "flt c d" and "not_negative c"
  shows "stamps_inv d (set_add c ts)"
proof -
  from assms(2,3) obtain x where c: "c = Fin x" and x: "0 \<le> x"
    by (rule flt_not_negative_Fin)
  show ?thesis
    using assms(1,2) x unfolding c stamps_inv_def set_add_def list_ex_feq_Fin
    by auto
qed

lemma timestamps_loop_inv_aux:
  assumes "timestamps_loop d i c ts = Some r"
  shows "not_negative i \<longrightarrow> not_negative c \<longrightarrow> stamps_inv d ts \<longrightarrow> stamps_inv d r"
proof (rule timestamps_loop.raw_induct [where P = "\<lambda>d i c ts r.
    not_negative i \<longrightarrow> not_negative c \<longrightarrow> stamps_inv d ts \<longrightarrow> stamps_inv d r", OF _ assms])
  fix loop d i c ts r
  assume IH: "\<And>d i c ts r. loop d i c ts = Some r \<Longrightarrow>
      not_negative i \<longrightarrow> not_negative c \<longrightarrow> stamps_inv d ts \<longrightarrow> stamps_inv d r"
    and eq: "(if flt c d then loop d i (fadd c i) (set_add c ts) else Some ts) = Some r"
  show "not_negative i \<longrightarrow> not_negative c \<longrightarrow> stamps_inv d ts \<longrightarrow> stamps_inv d r"
  proof (intro impI)
    assume i: "not_negative i" and c: "not_negative c" and inv: "stamps_inv d ts"
    show "stamps_inv d r"
    proof (cases "flt c d")
      case True
      with eq have run: "loop d i (fadd c i) (set_add c ts) = Some r" by simp
      show ?thesis
        using IH [OF run] i fadd_not_negative [OF c i] set_add_inv [OF inv True c]
        by blast
    next
      case False
      with eq inv show ?thesis by simp
    qed
  qed
qed

lemma timestamps_loop_inv:
  assumes "timestamps_loop d i c ts = Some r" and "not_negative i" and "not_negative c"
    and "stamps_inv d ts"
  shows "stamps_inv d r"
  using timestamps_loop_inv_aux [OF assms(1)] assms(2-) by blast

subsection \<open>Sorting\<close>

lemma set_insort_py: "set (insort_py x ys) = insert x (set ys)"
  by (induction ys) auto

lemma length_insort_py: "length (insort_py x ys) = Suc (length ys)"
  by (induction ys) auto

lemma sorted_insort_py:
  assumes "sorted_wrt flt ys" and "Fin a \<notin> set ys" and "\<forall>y\<in>set ys. \<exists>b. y = Fin b"
  shows "sorted_wrt flt (insort_py (Fin a) ys)"
  using assms
proof (induction ys)
  case Nil
  show ?case by simp
next
  case (Cons y ys)
  from Cons.prems obtain b where y: "y = Fin b" and ab: "a \<noteq> b" by auto
  show ?case
  proof (cases "a < b")
    case True
    have "flt (Fin a) z" if "z \<in> set ys" for z
    proof -
      from Cons.prems(3) that obtain c where z: "z = Fin c" by auto
      from Cons.prems(1) that have "flt y z" by simp
      with True y z show ?thesis by simp
    qed
    with True y Cons.prems(1) show ?thesis by simp
  next
    case False
    with ab have "b < a" by simp
    moreover have "sorted_wrt flt (insort_py (Fin a) ys)"
      using Cons.IH Cons.prems by simp
    ultimately show ?thesis
      using False y Cons.prems(1) by (simp add: set_insort_py)
  qed
qed

lemma distinct_insort_py: "distinct (insort_py x ys) = (x \<notin> set ys \<and> distinct ys)"
  by (induction ys) (auto simp: set_insort_py)

lemma foldl_insort_py:
  assumes "sorted_wrt flt acc" and "distinct (acc @ xs)"
    and "\<forall>y\<in>set (acc @ xs). \<exists>b. y = Fin b"
  shows "sorted_wrt flt (foldl (\<lambda>acc x. insort_py x acc) acc xs)
    \<and> set (foldl (\<lambda>acc x. insort_py x acc) acc xs) = set (acc @ xs)
    \<and> length (foldl (\<lambda>acc x. insort_py x acc) acc xs) = length (acc @ xs)"
  using assms
proof (induction xs arbitrary: acc)
  case Nil
  then show ?case by simp
next
  case (Cons x xs)
  from Cons.prems(3) obtain a where x: "x = Fin a" by auto
  have s: "sorted_wrt flt (insort_py x acc)"
    unfolding x using Cons.prems x by (intro sorted_insort_py) auto
  have d: "distinct (insort_py x acc @ xs)"
    using Cons.prems(2) by (auto simp: set_insort_py distinct_insort_py)
  have f: "\<forall>y\<in>set (insort_py x acc @ xs). \<exists>b. y = Fin b"
    using Cons.prems(3) by (auto simp: set_insort_py)
  from Cons.IH [OF s d f] show ?case
    by (simp add: set_insort_py length_insort_py)
qed

lemma sorted_py_props:
  assumes "distinct xs" and "\<forall>y\<in>set xs. \<exists>b. y = Fin b"
  shows "sorted_wrt flt (sorted_py xs)" and "set (sorted_py xs) = set xs"
    and "length (sorted_py xs) = length xs"
  using foldl_insort_py [of "[]" xs] assms by (simp_all add: sorted_py_def)

lemma strict_sorted_hd_least:
  assumes "sorted_wrt flt ts" and "Fin 0 \<in> set ts"
    and "\<forall>t\<in>set ts. \<exists>x. t = Fin x \<and> 0 \<le> x"
  shows "hd ts = Fin 0"
proof (cases ts)
  case Nil
  with assms(2) show ?thesis by simp
next
  case (Cons t ts')
  from assms(3) Cons obtain x where t: "t = Fin x" and x: "0 \<le> x" by auto
  show ?thesis
  proof (cases "Fin 0 \<in> set ts'")
    case True
    with assms(1) Cons have "flt t (Fin 0)" by simp
    with t x show ?thesis by simp
  next
    case False
    with assms(2) Cons show ?thesis by simp
  qed
qed

subsection \<open>The scheduler's result\<close>

lemma build_timestamps_result:
  assumes "flt (Fin 0) d" and "flt (Fin 0) i" and "build_timestamps d i = Some r"
  obtains ts where "r = Inr ts" and "sorted_wrt flt ts" and "Fin 0 \<in> set ts"
    and "\<forall>t\<in>set ts. \<exists>x. t = Fin x \<and> 0 \<le> x \<and> flt t d"
proof -
  from assms(1) have d: "\<not> fle d (Fin 0)" by (cases d) (auto simp: fle_def)
  from assms(2) have i: "\<not> fle i (Fin 0)" and nn: "not_negative i"
    by (cases i; auto simp: fle_def not_negative_def)+
  from assms(3) d i obtain raw where raw: "timestamps_loop d i i [Fin 0] = Some raw"
    and r: "r = Inr (sorted_py raw)"
    by (auto simp: build_timestamps_def)
  have "stamps_inv d [Fin 0]"
    using assms(1) by (simp add: stamps_inv_def)
  from timestamps_loop_inv [OF raw nn nn this] have inv: "stamps_inv d raw" .
  then have fin: "\<forall>y\<in>set raw. \<exists>b. y = Fin b" and dist: "distinct raw"
    by (auto simp: stamps_inv_def)
  note sp = sorted_py_props [OF dist fin]
  show thesis
  proof (rule that [OF r sp(1)])
    show "Fin 0 \<in> set (sorted_py raw)" using inv by (simp add: sp(2) stamps_inv_def)
    show "\<forall>t\<in>set (sorted_py raw). \<exists>x. t = Fin x \<and> 0 \<le> x \<and> flt t d"
      using inv by (simp add: sp(2) stamps_inv_def)
  qed
qed

subsection \<open>The exponent and the rounding error\<close>

text \<open>
  \<open>ilog2\<close> is the binary exponent (\<open>ilog2_lower\<close>, \<open>ilog2_upper\<close>), so rounding moves
  a positive value by at most half a unit in the last place (\<open>round_double_lower\<close>).
  Hence a cursor below the duration grows by at least half an interval at each step as
  long as the duration is at most \<open>2^52 - 1\<close> intervals, and the loop ends.
\<close>

lemma bit_length_upper: "n < 2 ^ bit_length n"
proof (induction n rule: bit_length.induct)
  case (1 n)
  show ?case
  proof (cases "n = 0")
    case True
    then show ?thesis by (simp add: bit_length.simps)
  next
    case False
    with 1 have "n div 2 < 2 ^ bit_length (n div 2)" by simp
    then have "n < 2 * 2 ^ bit_length (n div 2)" by linarith
    with False show ?thesis by (subst bit_length.simps) simp
  qed
qed

lemma bit_length_lower: "0 < n \<Longrightarrow> 2 ^ (bit_length n - 1) \<le> n"
proof (induction n rule: bit_length.induct)
  case (1 n)
  show ?case
  proof (cases "n div 2 = 0")
    case True
    with 1(2) have "n = 1" by (simp add: div_eq_0_iff)
    then show ?thesis by (simp add: bit_length_1)
  next
    case False
    with 1 have IH: "2 ^ (bit_length (n div 2) - 1) \<le> n div 2" by simp
    from False have "0 < bit_length (n div 2)" by (subst bit_length.simps) simp
    then have "(2::nat) ^ bit_length (n div 2) = 2 * 2 ^ (bit_length (n div 2) - 1)"
      by (cases "bit_length (n div 2)") simp_all
    with IH have "2 ^ bit_length (n div 2) \<le> n" by linarith
    with 1(2) show ?thesis by (subst bit_length.simps) simp
  qed
qed

lemma pow2_neg_exp: "e \<le> 0 \<Longrightarrow> pow2 e = 1 / 2 ^ nat (- e)"
  by (cases "e = 0") (simp_all add: pow2_def)

lemma pow2_diff: "pow2 (e - int k) = pow2 e / 2 ^ k"
proof -
  consider "0 \<le> e - int k" | "e - int k < 0" "0 \<le> e" | "e < 0" by linarith
  then show ?thesis
  proof cases
    case 1
    then have "nat e = nat (e - int k) + k" by linarith
    then have "(2::rat) ^ nat e = 2 ^ nat (e - int k) * 2 ^ k" by (simp add: power_add)
    with 1 show ?thesis by (simp add: pow2_def)
  next
    case 2
    then have "k = nat (int k - e) + nat e" by linarith
    then have "(2::rat) ^ k = 2 ^ nat (int k - e) * 2 ^ nat e" by (metis power_add)
    with 2 show ?thesis by (simp add: pow2_def)
  next
    case 3
    then have "nat (int k - e) = nat (- e) + k" by linarith
    then have "(2::rat) ^ nat (int k - e) = 2 ^ nat (- e) * 2 ^ k" by (simp add: power_add)
    with 3 show ?thesis by (simp add: pow2_def)
  qed
qed

lemma ilog2_lower:
  assumes "0 < a"
  shows "pow2 (ilog2 a) \<le> a"
proof (cases "1 \<le> a")
  case True
  then have pos: "0 < nat \<lfloor>a\<rfloor>" by simp
  from bit_length_lower [OF pos] have "2 ^ (bit_length (nat \<lfloor>a\<rfloor>) - 1) \<le> nat \<lfloor>a\<rfloor>" .
  then have "(2::rat) ^ (bit_length (nat \<lfloor>a\<rfloor>) - 1) \<le> of_nat (nat \<lfloor>a\<rfloor>)"
    by (metis of_nat_le_iff of_nat_numeral of_nat_power)
  also have "\<dots> \<le> a" using True by simp
  finally have le: "(2::rat) ^ (bit_length (nat \<lfloor>a\<rfloor>) - 1) \<le> a" .
  have "0 < bit_length (nat \<lfloor>a\<rfloor>)" using pos by (subst bit_length.simps) simp
  then have "nat (int (bit_length (nat \<lfloor>a\<rfloor>)) - 1) = bit_length (nat \<lfloor>a\<rfloor>) - 1"
    and "0 \<le> int (bit_length (nat \<lfloor>a\<rfloor>)) - 1" by linarith+
  with True le show ?thesis by (simp add: ilog2_def pow2_def)
next
  case False
  let ?c = "nat (\<lceil>1 / a\<rceil> - 1)"
  have c1: "1 \<le> \<lceil>1 / a\<rceil>" using assms by simp
  have cle: "\<lceil>1 / a\<rceil> \<le> int (?c + 1)" using c1 by linarith
  have up: "?c + 1 \<le> 2 ^ bit_length ?c" using bit_length_upper [of ?c] by linarith
  have "1 / a \<le> of_int \<lceil>1 / a\<rceil>" by (rule le_of_int_ceiling)
  also have "\<dots> \<le> of_int (int (?c + 1))" using cle by (simp only: of_int_le_iff)
  also have "\<dots> = of_nat (?c + 1)" by (simp only: of_int_of_nat_eq)
  also have "\<dots> \<le> of_nat (2 ^ bit_length ?c)" using up by (simp only: of_nat_le_iff)
  also have "\<dots> = 2 ^ bit_length ?c" by (simp only: of_nat_power of_nat_numeral)
  finally have "1 / a \<le> 2 ^ bit_length ?c" .
  then have "1 / 2 ^ bit_length ?c \<le> a"
    using assms by (simp add: field_simps)
  with False show ?thesis by (simp add: ilog2_def pow2_neg_exp)
qed

lemma ilog2_upper:
  assumes "0 < a"
  shows "a < pow2 (ilog2 a + 1)"
proof (cases "1 \<le> a")
  case True
  let ?n = "nat \<lfloor>a\<rfloor>"
  have up: "?n + 1 \<le> 2 ^ bit_length ?n" using bit_length_upper [of ?n] by linarith
  have "a < of_int (\<lfloor>a\<rfloor> + 1)" by linarith
  also have "\<lfloor>a\<rfloor> + 1 = int (?n + 1)" using True by simp
  also have "(of_int (int (?n + 1)) :: rat) = of_nat (?n + 1)" by (simp only: of_int_of_nat_eq)
  also have "\<dots> \<le> of_nat (2 ^ bit_length ?n)" using up by (simp only: of_nat_le_iff)
  also have "\<dots> = 2 ^ bit_length ?n" by (simp only: of_nat_power of_nat_numeral)
  finally show ?thesis using True by (simp add: ilog2_def pow2_def)
next
  case False
  let ?c = "nat (\<lceil>1 / a\<rceil> - 1)"
  from False assms have "1 < 1 / a" by simp
  then have "1 < \<lceil>1 / a\<rceil>" by (simp add: less_ceiling_iff)
  then have c: "0 < ?c" by simp
  from bit_length_lower [OF c] have "(of_nat (2 ^ (bit_length ?c - 1)) :: rat) \<le> of_nat ?c"
    by (simp only: of_nat_le_iff)
  then have "(2::rat) ^ (bit_length ?c - 1) \<le> of_nat ?c"
    by (simp only: of_nat_power of_nat_numeral)
  also have "(of_nat ?c :: rat) = of_int (int ?c)" by (simp only: of_int_of_nat_eq)
  also have "int ?c = \<lceil>1 / a\<rceil> - 1" using c by linarith
  also have "of_int (\<lceil>1 / a\<rceil> - 1) < 1 / a" by linarith
  finally have "a * 2 ^ (bit_length ?c - 1) < 1"
    using assms by (simp add: field_simps)
  then have lt: "a < 1 / 2 ^ (bit_length ?c - 1)"
    by (simp add: field_simps)
  have "0 < bit_length ?c" using c by (subst bit_length.simps) simp
  then have "nat (- (1 - int (bit_length ?c))) = bit_length ?c - 1"
    and "1 - int (bit_length ?c) \<le> 0" by linarith+
  with lt have "a < pow2 (1 - int (bit_length ?c))" by (simp add: pow2_neg_exp)
  with False show ?thesis by (simp add: ilog2_def)
qed

lemma round_half_even_error: "\<bar>of_int (round_half_even q) - q\<bar> \<le> 1 / 2"
proof -
  have "of_int \<lfloor>q\<rfloor> \<le> q" "q < of_int \<lfloor>q\<rfloor> + 1" by linarith+
  then show ?thesis by (auto simp: round_half_even_def Let_def)
qed

lemma round_double_lower:
  assumes "0 < x" and "round_double x = Fin r"
  shows "x - max (x / 2 ^ 53) (1 / 2 ^ 1075) \<le> r"
proof -
  define e where "e = max (ilog2 x) (- 1022)"
  define u where "u = pow2 (e - 52)"
  have u_pos: "0 < u" by (simp add: u_def pow2_pos)
  from assms have r: "r = of_int (round_half_even (x / u)) * u"
    by (simp add: round_double_def Let_def e_def u_def split: if_splits)
  have "x / u - 1 / 2 \<le> of_int (round_half_even (x / u))"
    using round_half_even_error [of "x / u"] by linarith
  then have "(x / u - 1 / 2) * u \<le> of_int (round_half_even (x / u)) * u"
    using u_pos by (simp only: mult_le_cancel_right_pos)
  moreover have "(x / u - 1 / 2) * u = x - u / 2" using u_pos by (simp add: field_simps)
  ultimately have low: "x - u / 2 \<le> r" by (simp only: r)
  have "u \<le> max (x / 2 ^ 52) (1 / 2 ^ 1074)"
  proof (cases "- 1022 \<le> ilog2 x")
    case True
    then have "u = pow2 (ilog2 x) / 2 ^ 52"
      using pow2_diff [of "ilog2 x" 52] by (simp add: u_def e_def)
    also have "\<dots> \<le> x / 2 ^ 52" using ilog2_lower [OF assms(1)] by (simp add: divide_right_mono)
    finally show ?thesis by simp
  next
    case False
    then have "e = - 1022" by (simp add: e_def)
    then have "u = 1 / 2 ^ 1074" by (simp add: u_def pow2_def)
    then show ?thesis by simp
  qed
  then have "u / 2 \<le> max (x / 2 ^ 53) (1 / 2 ^ 1075)" by (auto simp: max_def split: if_splits)
  with low show ?thesis by linarith
qed

lemma timestamps_loop_returns:
  fixes d i :: rat
  assumes i: "1 / 2 ^ 1074 \<le> i" and d: "d \<le> (2 ^ 52 - 1) * i"
  shows "0 \<le> c \<Longrightarrow> d - c \<le> of_nat m * (i / 2)
           \<Longrightarrow> \<exists>r. timestamps_loop (Fin d) (Fin i) (Fin c) ts = Some r"
proof (induction m arbitrary: c ts)
  case 0
  then have "\<not> c < d" by simp
  then show ?case by (subst timestamps_loop.simps) simp
next
  case (Suc m)
  have i_pos: "0 < i" using i by (rule less_le_trans [rotated]) simp
  show ?case
  proof (cases "c < d")
    case False
    then show ?thesis by (subst timestamps_loop.simps) simp
  next
    case True
    have x_pos: "0 < c + i" using Suc.prems(1) i_pos by linarith
    have step: "timestamps_loop (Fin d) (Fin i) (Fin c) ts
        = timestamps_loop (Fin d) (Fin i) (round_double (c + i)) (set_add (Fin c) ts)"
      using True by (subst timestamps_loop.simps) simp
    show ?thesis
    proof (cases "round_double (c + i)")
      case (Fin r)
      have "c + i \<le> 2 ^ 52 * i" using True d by (simp add: algebra_simps)
      then have "(c + i) / 2 ^ 53 \<le> i / 2" by simp
      moreover have "1 / 2 ^ 1075 \<le> i / 2" using i by simp
      ultimately have "max ((c + i) / 2 ^ 53) (1 / 2 ^ 1075) \<le> i / 2" by (rule max.boundedI)
      with round_double_lower [OF x_pos Fin] have r: "c + i / 2 \<le> r" by linarith
      then have "0 \<le> r" using Suc.prems(1) i_pos by linarith
      moreover have "d - r \<le> of_nat m * (i / 2)"
        using r Suc.prems(2) by (simp add: algebra_simps)
      ultimately show ?thesis unfolding step Fin by (rule Suc.IH)
    next
      case PInf
      show ?thesis unfolding step PInf by (subst timestamps_loop.simps) simp
    next
      case NInf
      with round_double_not_negative [of "c + i"] x_pos show ?thesis
        by (simp add: not_negative_def)
    next
      case NaN
      show ?thesis unfolding step NaN by (subst timestamps_loop.simps) simp
    qed
  qed
qed

lemma build_timestamps_returns:
  fixes d i :: rat
  assumes "0 < d" and "1 / 2 ^ 1074 \<le> i" and "d \<le> (2 ^ 52 - 1) * i"
  shows "\<exists>ts. build_timestamps (Fin d) (Fin i) = Some (Inr ts)"
proof -
  have i_pos: "0 < i" using assms(2) by (rule less_le_trans [rotated]) simp
  have "(d - i) / (i / 2) \<le> of_int \<lceil>(d - i) / (i / 2)\<rceil>" by (rule le_of_int_ceiling)
  also have "\<dots> \<le> of_nat (nat \<lceil>(d - i) / (i / 2)\<rceil>)" by simp
  finally have "d - i \<le> of_nat (nat \<lceil>(d - i) / (i / 2)\<rceil>) * (i / 2)"
    using i_pos by (simp add: pos_divide_le_eq)
  from timestamps_loop_returns [OF assms(2,3) _ this, of "[Fin 0]"] i_pos
  obtain r where "timestamps_loop (Fin d) (Fin i) (Fin i) [Fin 0] = Some r" by auto
  with assms(1) i_pos show ?thesis by (simp add: build_timestamps_def fle_def)
qed

text \<open>
  Claim C1. For every duration > 0 and every interval > 0, the list that
  \<open>build_timestamps\<close> returns is strictly increasing, its first element is 0.0, and
  its last element is strictly less than the duration. The scheduler raises nothing
  for these inputs, and it does return whenever the duration is at most
  \<open>2^52 - 1\<close> intervals (the interval being at least the smallest positive float).
\<close>

theorem build_timestamps_increasing:
  assumes "flt (Fin 0) duration" and "flt (Fin 0) interval"
  shows "(\<forall>r. build_timestamps duration interval = Some r \<longrightarrow>
            (\<exists>ts. r = Inr ts \<and> sorted_wrt flt ts \<and> ts \<noteq> [] \<and> hd ts = Fin 0
                  \<and> flt (last ts) duration))
    \<and> (\<forall>d i. duration = Fin d \<and> interval = Fin i \<and> 1 / 2 ^ 1074 \<le> i
            \<and> d \<le> (2 ^ 52 - 1) * i
          \<longrightarrow> build_timestamps duration interval \<noteq> None)"
proof (intro conjI allI impI)
  fix r
  assume "build_timestamps duration interval = Some r"
  with assms obtain ts where r: "r = Inr ts" and s: "sorted_wrt flt ts"
    and z: "Fin 0 \<in> set ts"
    and b: "\<forall>t\<in>set ts. \<exists>x. t = Fin x \<and> 0 \<le> x \<and> flt t duration"
    by (rule build_timestamps_result)
  from z have ne: "ts \<noteq> []" by auto
  have "hd ts = Fin 0" using s z b by (intro strict_sorted_hd_least) auto
  moreover have "flt (last ts) duration" using b ne last_in_set by blast
  ultimately show "\<exists>ts. r = Inr ts \<and> sorted_wrt flt ts \<and> ts \<noteq> [] \<and> hd ts = Fin 0
      \<and> flt (last ts) duration"
    using r s ne by blast
next
  fix d i :: rat
  assume h: "duration = Fin d \<and> interval = Fin i \<and> 1 / 2 ^ 1074 \<le> i \<and> d \<le> (2 ^ 52 - 1) * i"
  with assms(1) have "0 < d" by simp
  with h build_timestamps_returns [of d i] show "build_timestamps duration interval \<noteq> None"
    by auto
qed

lemma build_timestamps_95_30:
  "build_timestamps (Fin 95) (Fin 30) = Some (Inr [Fin 0, Fin 30, Fin 60, Fin 90])"
  by (simp add: sched_eval timestamps_loop.simps float_eval)

theorem build_timestamps_increasing_witness:
  "flt (Fin 0) (Fin 95) \<and> flt (Fin 0) (Fin 30)
   \<and> build_timestamps (Fin 95) (Fin 30) = Some (Inr [Fin 0, Fin 30, Fin 60, Fin 90])
   \<and> sorted_wrt flt [Fin 0, Fin 30, Fin 60, Fin 90]
   \<and> hd [Fin 0, Fin 30, Fin 60, Fin 90] = Fin 0
   \<and> flt (last [Fin 0, Fin 30, Fin 60, Fin 90]) (Fin 95)
   \<and> (1::rat) / 2 ^ 1074 \<le> 30 \<and> (95::rat) \<le> (2 ^ 52 - 1) * 30"
  using build_timestamps_increasing [of "Fin 95" "Fin 30"]
  by (simp add: build_timestamps_95_30)

text \<open>
  Claim C6. For every duration (positive, zero, negative, or not a number) and every
  interval \<open>\<le> 0\<close>, \<open>build_timestamps\<close> fails with the invalid-interval error and
  returns no timestamp list.
\<close>

theorem build_timestamps_invalid_interval:
  assumes "fle interval (Fin 0)"
  shows "build_timestamps duration interval
           = Some (Inl (ValueError ''time_interval must be greater than 0''))"
  using assms by (simp add: build_timestamps_def)

theorem build_timestamps_invalid_interval_witness:
  "fle (Fin (- 5)) (Fin 0) \<and> fle NInf (Fin 0) \<and> fle (Fin 0) (Fin 0)
   \<and> build_timestamps (Fin 95) (Fin (- 5)) = Some (Inl (ValueError ''time_interval must be greater than 0''))
   \<and> build_timestamps (Fin 0) NInf = Some (Inl (ValueError ''time_interval must be greater than 0''))
   \<and> build_timestamps NaN (Fin 0) = Some (Inl (ValueError ''time_interval must be greater than 0''))"
  using build_timestamps_invalid_interval [of "Fin (- 5)" "Fin 95"]
    build_timestamps_invalid_interval [of NInf "Fin 0"]
    build_timestamps_invalid_interval [of "Fin 0" NaN]
  by (simp add: fle_def)

subsection \<open>The number of timestamps\<close>

lemma set_add_fresh:
  assumes "Fin x \<notin> set ts"
  shows "set_add (Fin x) ts = ts @ [Fin x]"
  using assms by (simp add: set_add_def list_ex_feq_Fin)

lemma exact_loop:
  fixes d i :: rat
  assumes i: "0 < i"
    and exact: "\<forall>k::nat. 0 < k \<and> of_nat k * i < d \<longrightarrow>
                  round_double (of_nat k * i + i) = Fin (of_nat (Suc k) * i)"
    and k: "0 < k" "k \<le> n" and n: "of_nat n * i \<ge> d" "\<forall>j<n. of_nat j * i < d"
  shows "timestamps_loop (Fin d) (Fin i) (Fin (of_nat k * i)) (map (\<lambda>j. Fin (of_nat j * i)) [0..<k])
           = Some (map (\<lambda>j. Fin (of_nat j * i)) [0..<n])"
  using k
proof (induction "n - k" arbitrary: k)
  case 0
  then have "k = n" by simp
  with n(1) show ?case by (subst timestamps_loop.simps) simp
next
  case (Suc m)
  then have kn: "k < n" by simp
  with n(2) have lt: "of_nat k * i < d" by simp
  have next_cursor: "fadd (Fin (of_nat k * i)) (Fin i) = Fin (of_nat (Suc k) * i)"
    using exact Suc.prems(1) lt by simp
  have "Fin (of_nat k * i) \<notin> set (map (\<lambda>j. Fin (of_nat j * i)) [0..<k])"
    using i by auto
  then have grow: "set_add (Fin (of_nat k * i)) (map (\<lambda>j. Fin (of_nat j * i)) [0..<k])
      = map (\<lambda>j. Fin (of_nat j * i)) [0..<Suc k]"
    by (simp add: set_add_fresh)
  have "timestamps_loop (Fin d) (Fin i) (Fin (of_nat (Suc k) * i))
          (map (\<lambda>j. Fin (of_nat j * i)) [0..<Suc k])
        = Some (map (\<lambda>j. Fin (of_nat j * i)) [0..<n])"
    using Suc.hyps(2) kn by (intro Suc.hyps(1)) simp_all
  with lt next_cursor grow show ?case
    by (subst timestamps_loop.simps) (simp del: of_nat_Suc)
qed

lemma ceiling_steps:
  fixes d i :: rat
  assumes "0 < i" and "0 < d"
  shows "of_nat (nat \<lceil>d / i\<rceil>) * i \<ge> d" and "\<forall>j < nat \<lceil>d / i\<rceil>. of_nat j * i < d"
    and "0 < nat \<lceil>d / i\<rceil>"
proof -
  have pos: "0 < \<lceil>d / i\<rceil>" using assms by simp
  have "d \<le> of_int \<lceil>d / i\<rceil> * i"
    using le_of_int_ceiling [of "d / i"] unfolding pos_divide_le_eq [OF assms(1)] .
  with pos show "of_nat (nat \<lceil>d / i\<rceil>) * i \<ge> d" by simp
  show "\<forall>j < nat \<lceil>d / i\<rceil>. of_nat j * i < d"
  proof (intro allI impI)
    fix j assume "j < nat \<lceil>d / i\<rceil>"
    then have "int j < \<lceil>d / i\<rceil>" by linarith
    then have "of_int (int j) < d / i" by (simp only: less_ceiling_iff)
    then show "of_nat j * i < d" using assms(1) by (simp add: pos_less_divide_eq)
  qed
  from pos show "0 < nat \<lceil>d / i\<rceil>" by simp
qed

lemma build_timestamps_exact_run:
  fixes d i :: rat
  assumes "0 < d" and "0 < i"
    and "\<forall>k::nat. 0 < k \<and> of_nat k * i < d \<longrightarrow>
           round_double (of_nat k * i + i) = Fin (of_nat (Suc k) * i)"
  shows "\<exists>ts. build_timestamps (Fin d) (Fin i) = Some (Inr ts) \<and> int (length ts) = \<lceil>d / i\<rceil>"
proof -
  let ?n = "nat \<lceil>d / i\<rceil>"
  let ?ts = "map (\<lambda>j. Fin (of_nat j * i)) [0..<?n]"
  note c = ceiling_steps [OF assms(2,1)]
  have one: "(0::nat) < 1" "1 \<le> ?n" using c(3) by linarith+
  have "timestamps_loop (Fin d) (Fin i) (Fin (of_nat 1 * i))
          (map (\<lambda>j. Fin (of_nat j * i)) [0..<1]) = Some ?ts"
    by (rule exact_loop [OF assms(2,3) one c(1,2)])
  then have run: "timestamps_loop (Fin d) (Fin i) (Fin i) [Fin 0] = Some ?ts"
    by simp
  have "distinct ?ts" using assms(2) by (auto simp: distinct_map inj_on_def)
  moreover have "\<forall>y\<in>set ?ts. \<exists>b. y = Fin b" by auto
  ultimately have "length (sorted_py ?ts) = ?n"
    by (simp add: sorted_py_props(3))
  moreover have "build_timestamps (Fin d) (Fin i) = Some (Inr (sorted_py ?ts))"
    using assms(1,2) run by (simp add: build_timestamps_def fle_def)
  ultimately show ?thesis using c(3) by auto
qed

text \<open>
  Claim C7, as amended. For every duration > 0 and interval > 0 such that each running
  sum \<open>cursor + interval\<close> formed while \<open>cursor < duration\<close> is exact in float
  arithmetic (every multiple of the interval up to the first one that reaches the
  duration is a float), the scheduler returns exactly \<open>\<lceil>duration / interval\<rceil>\<close>
  timestamps, hence at most that many. (As stated, for every duration and interval,
  the bound fails: the rounded sums of 0.1 stay below 1.0 for ten steps, see
  \<open>build_timestamps_count_counterexample\<close>.)
\<close>

theorem build_timestamps_count_exact:
  fixes duration interval :: rat
  assumes "0 < duration" and "0 < interval"
    and "\<forall>k::nat. 0 < k \<and> of_nat k * interval < duration \<longrightarrow>
           round_double (of_nat k * interval + interval) = Fin (of_nat (Suc k) * interval)"
  shows "\<exists>ts. build_timestamps (Fin duration) (Fin interval) = Some (Inr ts)
           \<and> int (length ts) = \<lceil>duration / interval\<rceil>"
  using assms by (rule build_timestamps_exact_run)

lemma build_timestamps_quarter:
  "build_timestamps (Fin 1) (Fin (1 / 4)) = Some (Inr [Fin 0, Fin (1 / 4), Fin (1 / 2), Fin (3 / 4)])"
  by (simp add: sched_eval timestamps_loop.simps float_eval)

theorem build_timestamps_count_exact_witness:
  "(0::rat) < 1 \<and> (0::rat) < 1 / 4
   \<and> build_timestamps (Fin 1) (Fin (1 / 4)) = Some (Inr [Fin 0, Fin (1 / 4), Fin (1 / 2), Fin (3 / 4)])
   \<and> int (length [Fin 0, Fin (1 / 4), Fin (1 / 2), Fin (3 / 4)]) = \<lceil>(1::rat) / (1 / 4)\<rceil>"
proof -
  have exact: "\<forall>k::nat. 0 < k \<and> of_nat k * (1 / 4) < (1::rat) \<longrightarrow>
           round_double (of_nat k * (1 / 4) + 1 / 4) = Fin (of_nat (Suc k) * (1 / 4))"
  proof (intro allI impI)
    fix k :: nat
    assume h: "0 < k \<and> of_nat k * (1 / 4) < (1::rat)"
    then have "(of_nat k :: rat) < of_nat 4" by simp
    then have "k < 4" by (simp only: of_nat_less_iff)
    with h consider "k = 1" | "k = 2" | "k = 3" by linarith
    then show "round_double (of_nat k * (1 / 4) + 1 / 4) = Fin (of_nat (Suc k) * (1 / 4))"
      by cases (simp_all add: float_eval)
  qed
  from build_timestamps_count_exact [of 1 "1 / 4", OF _ _ exact] build_timestamps_quarter
  show ?thesis by simp
qed

text \<open>
  \<open>build_timestamps(1.0, 0.1)\<close>: the float nearest to 0.1 is \<open>3602879701896397 / 2^55\<close>;
  eleven timestamps are returned, the last being \<open>1 - 2^-53\<close> (printed
  0.9999999999999999), while \<open>\<lceil>1.0 / 0.1\<rceil> = 10\<close>, in exact and in float division.
\<close>

theorem build_timestamps_count_counterexample:
  "round_double (1 / 10) = Fin (3602879701896397 / 2 ^ 55)
   \<and> map_option (map_sum id (\<lambda>ts. (length ts, last ts)))
        (build_timestamps (Fin 1) (Fin (3602879701896397 / 2 ^ 55)))
       = Some (Inr (11, Fin (1 - 1 / 2 ^ 53)))
   \<and> \<lceil>(1::rat) / (3602879701896397 / 2 ^ 55)\<rceil> = 10
   \<and> round_double (1 / (3602879701896397 / 2 ^ 55)) = Fin 10"
  by (simp add: sched_eval timestamps_loop.simps float_eval)

subsection \<open>Whole seconds\<close>

text \<open>
  Sums of whole numbers up to \<open>2^53\<close> are exact, so an interval of a whole number of
  seconds gives exactly \<open>\<lceil>duration / interval\<rceil>\<close> timestamps.
\<close>

lemma round_half_even_of_int: "round_half_even (of_int z) = z"
  by (simp add: round_half_even_def)

lemma bit_length_le:
  assumes "0 < n" and "n \<le> 2 ^ k"
  shows "bit_length n \<le> Suc k"
proof (rule ccontr)
  assume "\<not> bit_length n \<le> Suc k"
  then have "Suc k \<le> bit_length n - 1" by simp
  then have "(2::nat) ^ Suc k \<le> 2 ^ (bit_length n - 1)" by (rule power_increasing) simp
  also have "\<dots> \<le> n" by (rule bit_length_lower [OF assms(1)])
  finally have "2 * 2 ^ k \<le> n" by simp
  moreover have "0 < (2::nat) ^ k" by simp
  ultimately show False using assms(2) by linarith
qed

lemma round_double_of_nat:
  assumes "n \<le> 2 ^ 53"
  shows "round_double (of_nat n) = Fin (of_nat n)"
proof (cases "n = 0")
  case True
  then show ?thesis by (simp add: round_double_def)
next
  case False
  then have pos: "0 < n" by simp
  define b where "b = bit_length n"
  have b_pos: "0 < b" unfolding b_def using pos by (subst bit_length.simps) simp
  have b_le: "b \<le> 54" unfolding b_def using bit_length_le [OF pos assms] by simp
  have e: "ilog2 (of_nat n) = int b - 1"
    using pos by (simp add: ilog2_def b_def)
  have m: "max (int b - 1) (- 1022) = int b - 1" using b_pos by simp
  define u where "u = pow2 (int b - 53)"
  have u_pos: "0 < u" by (simp add: u_def pow2_pos)
  have "\<exists>z. (of_nat n :: rat) / u = of_int z"
  proof (cases "b = 54")
    case True
    then have "2 ^ 53 \<le> n" using bit_length_lower [OF pos] by (simp add: b_def)
    with assms have "n = 2 ^ 53" by simp
    moreover from True have "u = 2" by (simp add: u_def pow2_def)
    ultimately have "(of_nat n :: rat) / u = of_int (2 ^ 52)" by simp
    then show ?thesis by blast
  next
    case False
    with b_le have "int b - 53 \<le> 0" by simp
    then have "u = 1 / 2 ^ nat (- (int b - 53))" unfolding u_def by (rule pow2_neg_exp)
    then have "(of_nat n :: rat) / u = of_int (int n * 2 ^ nat (- (int b - 53)))" by simp
    then show ?thesis by blast
  qed
  then obtain z where z: "(of_nat n :: rat) / u = of_int z" by blast
  then have scaled: "of_int z * u = (of_nat n :: rat)" using u_pos by (simp add: field_simps)
  have "(of_nat n :: rat) \<le> of_nat (2 ^ 53)" using assms by (simp only: of_nat_le_iff)
  also have "\<dots> < pow2 1024" by (simp add: pow2_def)
  finally have small: "\<not> pow2 1024 \<le> (of_nat n :: rat)" by simp
  show ?thesis
    using pos small
    by (simp add: round_double_def Let_def e m u_def [symmetric] z round_half_even_of_int scaled)
qed

lemma build_timestamps_whole_seconds:
  fixes d :: rat
  assumes "0 < d" and "0 < m" and "d + of_nat m \<le> 2 ^ 53"
  shows "\<exists>ts. build_timestamps (Fin d) (Fin (of_nat m)) = Some (Inr ts)
           \<and> int (length ts) = \<lceil>d / of_nat m\<rceil>"
proof (rule build_timestamps_exact_run [OF assms(1)])
  show "(0::rat) < of_nat m" using assms(2) by simp
  show "\<forall>k::nat. 0 < k \<and> of_nat k * of_nat m < d \<longrightarrow>
          round_double (of_nat k * of_nat m + of_nat m) = Fin (of_nat (Suc k) * of_nat m)"
  proof (intro allI impI)
    fix k :: nat
    assume h: "0 < k \<and> of_nat k * of_nat m < d"
    then have "(of_nat (Suc k * m) :: rat) < d + of_nat m" by (simp add: algebra_simps)
    also note assms(3)
    finally have "(of_nat (Suc k * m) :: rat) < of_nat (2 ^ 53)" by simp
    then have "Suc k * m \<le> 2 ^ 53" by (simp only: of_nat_less_iff less_imp_le)
    from round_double_of_nat [OF this]
    show "round_double (of_nat k * of_nat m + of_nat m) = Fin (of_nat (Suc k) * of_nat m)"
      by (simp add: algebra_simps)
  qed
qed

subsection \<open>A run that does not end\<close>

text \<open>
  With interval 1 and duration \<open>2^54\<close> the cursor counts up to \<open>2^53\<close>, where
  \<open>cursor + 1\<close> rounds back to \<open>cursor\<close>: the loop never leaves, and the scheduler
  does not return. (A machine runs out of memory for the set long before.)
\<close>

lemma stalled_loop_aux:
  assumes "timestamps_loop d i c ts = Some r"
  shows "d = Fin (2 ^ 54) \<and> i = Fin 1 \<and> c = Fin (2 ^ 53) \<longrightarrow> False"
proof (rule timestamps_loop.raw_induct [where P = "\<lambda>d i c ts r.
    d = Fin (2 ^ 54) \<and> i = Fin 1 \<and> c = Fin (2 ^ 53) \<longrightarrow> False", OF _ assms])
  fix loop d i c ts r
  assume IH: "\<And>d i c ts r. loop d i c ts = Some r \<Longrightarrow>
      d = Fin (2 ^ 54) \<and> i = Fin 1 \<and> c = Fin (2 ^ 53) \<longrightarrow> False"
    and eq: "(if flt c d then loop d i (fadd c i) (set_add c ts) else Some ts) = Some r"
  show "d = Fin (2 ^ 54) \<and> i = Fin 1 \<and> c = Fin (2 ^ 53) \<longrightarrow> False"
  proof
    assume h: "d = Fin (2 ^ 54) \<and> i = Fin 1 \<and> c = Fin (2 ^ 53)"
    then have stay: "fadd c i = c" by (simp add: float_eval)
    from eq h have "loop d i (fadd c i) (set_add c ts) = Some r" by simp
    then have "loop d i c (set_add c ts) = Some r" by (simp only: stay)
    from IH [OF this] h show False by simp
  qed
qed

lemma stalled_loop: "timestamps_loop (Fin (2 ^ 54)) (Fin 1) (Fin (2 ^ 53)) ts = None"
proof (cases "timestamps_loop (Fin (2 ^ 54)) (Fin 1) (Fin (2 ^ 53)) ts")
  case None
  then show ?thesis .
next
  case (Some r)
  from stalled_loop_aux [OF this] show ?thesis by simp
qed

lemma counting_loop:
  assumes "0 < k" and "k \<le> 2 ^ 53"
  shows "timestamps_loop (Fin (2 ^ 54)) (Fin 1) (Fin (of_nat k)) ts = None"
  using assms
proof (induction "2 ^ 53 - k" arbitrary: k ts)
  case 0
  then have "k = 2 ^ 53" by simp
  then have "(of_nat k :: rat) = 2 ^ 53" by simp
  then show ?case by (simp only: stalled_loop)
next
  case (Suc m)
  then have k: "Suc k \<le> 2 ^ 53" by simp
  have "(of_nat k :: rat) < of_nat (2 ^ 54)" using Suc.prems(2) by (simp only: of_nat_less_iff) simp
  then have lt: "(of_nat k :: rat) < 2 ^ 54" by simp
  have "fadd (Fin (of_nat k)) (Fin 1) = round_double (of_nat (Suc k))"
    by (simp add: add.commute)
  also have "\<dots> = Fin (of_nat (Suc k))" by (rule round_double_of_nat [OF k])
  finally have next_cursor: "fadd (Fin (of_nat k)) (Fin 1) = Fin (of_nat (Suc k))" .
  have "timestamps_loop (Fin (2 ^ 54)) (Fin 1) (Fin (of_nat (Suc k))) (set_add (Fin (of_nat k)) ts)
      = None"
    using Suc.hyps(2) k by (intro Suc.hyps(1)) simp_all
  with lt show ?case
    by (subst timestamps_loop.simps) (simp only: next_cursor flt.simps if_True)
qed

lemma build_timestamps_never_returns: "build_timestamps (Fin (2 ^ 54)) (Fin 1) = None"
  using counting_loop [of 1 "[Fin 0]"] by (simp add: build_timestamps_def fle_def)

section \<open>The video job runner\<close>

lemma after_render_eq:
  "after_render w p r st =
     (case attempt_error w p r of
        None \<Rightarrow> st\<lparr>js_written := js_written st + 1\<rparr>
      | Some m \<Rightarrow> st\<lparr>js_errors := js_errors st @ [m]\<rparr>)"
  by (simp add: after_render_def attempt_error_def split: sum.splits bool.splits)

lemma render_one_eq:
  "render_one w video out_dir index t st =
     \<lparr>js_errors = js_errors st @ option_list (one_frame_error w video out_dir index t),
      js_written = js_written st + (if one_frame_error w video out_dir index t = None then 1 else 0),
      js_calls = js_calls st @ [ExtractOneFrame video t (frame_path_at out_dir index t)]\<rparr>"
  by (simp add: render_one_def after_render_eq one_frame_error_def frame_path_at_def Let_def
      split: option.splits)

lemma render_last_eq:
  "render_last w video out_dir index d st =
     \<lparr>js_errors = js_errors st @ option_list (last_frame_error w video out_dir index d),
      js_written = js_written st + (if last_frame_error w video out_dir index d = None then 1 else 0),
      js_calls = js_calls st @ [ExtractLastFrame video (frame_path_at out_dir index d)]\<rparr>"
  by (simp add: render_last_def after_render_eq last_frame_error_def frame_path_at_def Let_def
      split: option.splits)

lemma render_frames_eq:
  "render_frames w video out_dir index ts st =
     \<lparr>js_errors = js_errors st
        @ concat (map (\<lambda>(k, t). option_list (one_frame_error w video out_dir k t))
                    (enumerate_from index ts)),
      js_written = js_written st
        + int (length (filter (\<lambda>(k, t). one_frame_error w video out_dir k t = None)
                 (enumerate_from index ts))),
      js_calls = js_calls st
        @ map (\<lambda>(k, t). ExtractOneFrame video t (frame_path_at out_dir k t))
            (enumerate_from index ts)\<rparr>"
proof (induction ts arbitrary: index st)
  case Nil
  show ?case by simp
next
  case (Cons t ts)
  show ?case by (simp add: Cons.IH render_one_eq)
qed

lemma length_enumerate_from: "length (enumerate_from n xs) = length xs"
  by (induction xs arbitrary: n) auto

lemma length_concat_option_list:
  "length (concat (map (\<lambda>x. option_list (f x)) xs)) + length (filter (\<lambda>x. f x = None) xs)
     = length xs"
  by (induction xs) (auto split: option.splits)

lemma convert_video_scheduled:
  assumes "mkdir w (video_output_dir video output_root) = None"
    and "probe_duration_seconds w video = Inr duration"
    and "build_timestamps duration interval = Some (Inr timestamps)"
  shows "convert_video w video interval output_root =
           Some (Inr (scheduled_result w video (video_output_dir video output_root) duration timestamps),
                 scheduled_calls video (video_output_dir video output_root) duration timestamps)"
  using assms
  by (simp add: convert_video_def Let_def render_frames_eq render_last_eq scheduled_result_def
      scheduled_calls_def)

lemma convert_video_cases:
  assumes "convert_video w video interval output_root = Some (Inr res, calls)"
  obtains (probe_failed) exc where "probe_duration_seconds w video = Inl exc"
      and "res = failed_result video (video_output_dir video output_root) exc" and "calls = []"
  | (schedule_failed) duration exc where "probe_duration_seconds w video = Inr duration"
      and "build_timestamps duration interval = Some (Inl exc)"
      and "res = failed_result video (video_output_dir video output_root) exc" and "calls = []"
  | (scheduled) duration timestamps where "probe_duration_seconds w video = Inr duration"
      and "build_timestamps duration interval = Some (Inr timestamps)"
      and "res = scheduled_result w video (video_output_dir video output_root) duration timestamps"
      and "calls = scheduled_calls video (video_output_dir video output_root) duration timestamps"
proof -
  from assms have m: "mkdir w (video_output_dir video output_root) = None"
    by (auto simp: convert_video_def Let_def split: option.splits)
  show thesis
  proof (cases "probe_duration_seconds w video")
    case (Inl exc)
    with assms m show thesis
      by (intro probe_failed [of exc]) (auto simp: convert_video_def Let_def failed_result_def)
  next
    case (Inr duration)
    show thesis
    proof (cases "build_timestamps duration interval")
      case None
      with assms m Inr show thesis by (simp add: convert_video_def Let_def)
    next
      case (Some r)
      show thesis
      proof (cases r)
        case (Inl exc)
        with assms m Inr Some show thesis
          by (intro schedule_failed [of duration exc])
            (auto simp: convert_video_def Let_def failed_result_def)
      next
        case r: (Inr timestamps)
        from convert_video_scheduled [OF m Inr Some [unfolded r]] assms
        show thesis by (intro scheduled [of duration timestamps]) (auto simp: Inr Some r)
      qed
    qed
  qed
qed

lemma scheduled_result_count:
  "written_frames (scheduled_result w video out_dir d ts)
     + int (length (errors (scheduled_result w video out_dir d ts)))
   = requested_frames (scheduled_result w video out_dir d ts)"
proof -
  let ?f = "\<lambda>(k, t). one_frame_error w video out_dir k t"
  have "length (concat (map (\<lambda>x. option_list (?f x)) (enumerate_from 1 ts)))
        + length (filter (\<lambda>x. ?f x = None) (enumerate_from 1 ts)) = length ts"
    by (simp only: length_concat_option_list length_enumerate_from)
  then have "int (length (concat (map (\<lambda>x. option_list (?f x)) (enumerate_from 1 ts))))
        + int (length (filter (\<lambda>x. ?f x = None) (enumerate_from 1 ts))) = int (length ts)"
    by linarith
  moreover have "(\<lambda>x. option_list (?f x)) = (\<lambda>(k, t). option_list (one_frame_error w video out_dir k t))"
    by auto
  moreover have "(\<lambda>x. ?f x = None) = (\<lambda>(k, t). one_frame_error w video out_dir k t = None)"
    by auto
  ultimately show ?thesis
    by (cases "last_frame_error w video out_dir (length ts + 1) d")
      (simp_all add: scheduled_result_def)
qed

text \<open>
  Claim C2. For every \<open>VideoResult\<close> returned by \<open>convert_video\<close>,
  \<open>written_frames \<le> requested_frames\<close>; and whenever the duration probe and the
  scheduler both succeed, \<open>requested_frames\<close> is the length of the scheduled timestamp
  list plus one, for the last-frame render.
\<close>

theorem convert_video_written_le_requested:
  assumes "convert_video w video interval output_root = Some (Inr res, calls)"
  shows "written_frames res \<le> requested_frames res
    \<and> (\<forall>duration timestamps.
          probe_duration_seconds w video = Inr duration
          \<and> build_timestamps duration interval = Some (Inr timestamps)
          \<longrightarrow> requested_frames res = int (length timestamps) + 1)"
  using assms
proof (cases rule: convert_video_cases)
  case (probe_failed exc)
  then show ?thesis by (simp add: failed_result_def)
next
  case (schedule_failed duration exc)
  then show ?thesis by (simp add: failed_result_def)
next
  case (scheduled duration timestamps)
  have "written_frames res \<le> requested_frames res"
    using scheduled_result_count [of w video "video_output_dir video output_root" duration timestamps]
    unfolding scheduled(3) by linarith
  moreover have "requested_frames res = int (length timestamps) + 1"
    by (simp add: scheduled(3) scheduled_result_def)
  ultimately show ?thesis using scheduled(1,2) by simp
qed

text \<open>
  Claim C9. For every video whose duration probe and scheduling succeed, the finalized
  \<open>VideoResult\<close> satisfies \<open>written_frames + len(errors) = requested_frames\<close>: each
  requested attempt, that is every scheduled timestamp and the last frame, gives either
  one written frame or one error message.
\<close>

theorem convert_video_written_plus_errors:
  assumes "convert_video w video interval output_root = Some (Inr res, calls)"
    and "probe_duration_seconds w video = Inr duration"
    and "build_timestamps duration interval = Some (Inr timestamps)"
  shows "written_frames res + int (length (errors res)) = requested_frames res
    \<and> requested_frames res = int (length timestamps) + 1"
  using assms(1)
proof (cases rule: convert_video_cases)
  case (probe_failed exc)
  with assms(2) show ?thesis by simp
next
  case (schedule_failed duration' exc)
  with assms(2,3) show ?thesis by simp
next
  case (scheduled duration' timestamps')
  with assms(2,3) have "timestamps' = timestamps" by simp
  with scheduled(3) show ?thesis
    by (simp add: scheduled_result_count) (simp add: scheduled_result_def)
qed

lemma replicate_numeral: "replicate (numeral k) x = x # replicate (pred_numeral k) x"
  by (simp add: numeral_eq_Suc)

lemmas name_eval = output_frame_name_def fmt_3f_def round_half_even_def zfill_def str_nat.simps
  Let_def replicate_numeral frame_path_at_def joinpath_def

lemma probe_demo: "probe_duration_seconds (demo_world True fs) demo_video = Inr (Fin 95)"
  by (simp add: probe_duration_seconds_def demo_world_def demo_video_def Let_def strip_def
      is_space_def is_finite_def)

lemma probe_demo_fails:
  "probe_duration_seconds (demo_world False fs) demo_video = Inl (RuntimeError ''moov atom not found'')"
  by (simp add: probe_duration_seconds_def demo_world_def demo_video_def Let_def strip_def
      is_space_def or_else_def)

lemma demo_output_dir: "video_output_dir demo_video None = demo_dir"
  by (simp add: video_output_dir_def demo_video_def demo_dir_def path_parent_def path_stem_def
      path_name_def joinpath_def Let_def)

lemma demo_frame_names:
  "output_frame_name (Suc 0) (Fin 0) = ''frame_000001_t0p000.jpg''"
  "output_frame_name 2 (Fin 30) = ''frame_000002_t30p000.jpg''"
  "output_frame_name 3 (Fin 60) = ''frame_000003_t60p000.jpg''"
  "output_frame_name 4 (Fin 90) = ''frame_000004_t90p000.jpg''"
  "output_frame_name 5 (Fin 95) = ''frame_000005_t95p000.jpg''"
  by (simp_all add: name_eval)

lemma demo_fmt:
  "fmt_3f (Fin 0) = ''0.000''" "fmt_3f (Fin 30) = ''30.000''" "fmt_3f (Fin 60) = ''60.000''"
  "fmt_3f (Fin 90) = ''90.000''"
  by (simp_all add: name_eval)

lemma output_frame_name_not_empty: "output_frame_name k t \<noteq> []"
  by (simp add: output_frame_name_def Let_def)

lemma path_name_frame: "path_name (frame_path_at out_dir k t) = output_frame_name k t"
  using output_frame_name_not_empty [of k t]
  by (simp add: path_name_def frame_path_at_def joinpath_def)

lemma demo_extract_one:
  "extract_one_frame (demo_world True fs) demo_video t p
     = (if fmt_3f t \<in> set fs then Inl (RuntimeError ''seek failed'') else Inr ())"
  by (simp add: extract_one_frame_def demo_world_def Let_def strip_def is_space_def or_else_def)

lemma demo_extract_last: "extract_last_frame (demo_world True fs) demo_video p = Inr ()"
  by (simp add: extract_last_frame_def demo_world_def Let_def)

lemma demo_frame_written: "frame_written (demo_world ok fs) p = Inr True"
  by (simp add: demo_world_def)

lemma demo_one_frame_error:
  "one_frame_error (demo_world True fs) demo_video out_dir k t
     = (if fmt_3f t \<in> set fs then Some (output_frame_name k t @ '': seek failed'') else None)"
  by (simp add: one_frame_error_def attempt_error_def demo_extract_one demo_frame_written
      path_name_frame)

lemma demo_last_frame_error: "last_frame_error (demo_world True fs) demo_video out_dir k d = None"
  by (simp add: last_frame_error_def attempt_error_def demo_extract_last demo_frame_written)

lemma demo_errors:
  "one_frame_error (demo_world True [''60.000'']) demo_video demo_dir (Suc 0) (Fin 0) = None"
  "one_frame_error (demo_world True [''60.000'']) demo_video demo_dir 2 (Fin 30) = None"
  "one_frame_error (demo_world True [''60.000'']) demo_video demo_dir 3 (Fin 60)
     = Some ''frame_000003_t60p000.jpg: seek failed''"
  "one_frame_error (demo_world True [''60.000'']) demo_video demo_dir 4 (Fin 90) = None"
  "last_frame_error (demo_world True [''60.000'']) demo_video demo_dir 5 (Fin 95) = None"
  by (simp_all add: demo_one_frame_error demo_last_frame_error demo_fmt demo_frame_names)

lemma join_sep_snoc: "n \<noteq> [] \<Longrightarrow> \<exists>pre. join_sep (xs @ [n]) = pre @ n"
proof (induction xs rule: join_sep.induct)
  case 1
  show ?case by simp
next
  case (2 x)
  show ?case by simp
next
  case (3 x y ys)
  then obtain pre where "join_sep ((y # ys) @ [n]) = pre @ n" by blast
  then have "join_sep ((x # y # ys) @ [n]) = (x @ ''/'' @ pre) @ n" by simp
  then show ?case by blast
qed

lemma attempt_error_names_file:
  assumes "attempt_error w (joinpath out_dir n) r = Some m" and "n \<noteq> []"
  shows "\<exists>pre post. m = pre @ n @ post"
proof -
  have name: "path_name (joinpath out_dir n) = n"
    using assms(2) by (simp add: path_name_def joinpath_def)
  obtain pre where "join_sep (parts out_dir @ [n]) = pre @ n"
    using join_sep_snoc [OF assms(2)] by blast
  then have str: "path_str (joinpath out_dir n) = (anchor out_dir @ pre) @ n"
    using assms(2) by (simp add: path_str_def joinpath_def)
  from assms(1) consider exc where "m = n @ '': '' @ str_exc exc"
    | "m = (''Empty frame output: '' @ anchor out_dir @ pre) @ n"
    by (auto simp: attempt_error_def name str split: sum.splits bool.splits)
  then show ?thesis
  proof cases
    case 1
    then have "m = [] @ n @ ('': '' @ str_exc exc)" by simp
    then show ?thesis by blast
  next
    case 2
    then have "m = (''Empty frame output: '' @ anchor out_dir @ pre) @ n @ []" by simp
    then show ?thesis by blast
  qed
qed

lemma one_frame_error_names_file:
  assumes "one_frame_error w video out_dir k t = Some m"
  shows "\<exists>pre post. m = pre @ output_frame_name k t @ post"
  using assms attempt_error_names_file [OF _ output_frame_name_not_empty]
  unfolding one_frame_error_def frame_path_at_def by blast

lemma four_timestamps:
  assumes "length ts = 4"
  shows "enumerate_from (Suc 0) ts
    = [(Suc 0, ts ! 0), (Suc (Suc 0), ts ! Suc 0), (Suc (Suc (Suc 0)), ts ! Suc (Suc 0)),
       (Suc (Suc (Suc (Suc 0))), ts ! Suc (Suc (Suc 0)))]"
proof -
  from assms obtain a b c d where "ts = [a, b, c, d]"
    by (auto simp: length_Suc_conv eval_nat_numeral)
  then show ?thesis by simp
qed

lemma one_of_four_fails:
  assumes len: "length ts = 4" and k: "k < 4"
    and bad: "one_frame_error w video out_dir (Suc k) (ts ! k) = Some m"
    and good: "\<forall>j<4. j \<noteq> k \<longrightarrow> one_frame_error w video out_dir (Suc j) (ts ! j) = None"
    and last_ok: "last_frame_error w video out_dir 5 d = None"
  shows "written_frames (scheduled_result w video out_dir d ts) = 4"
    and "requested_frames (scheduled_result w video out_dir d ts) = 5"
    and "errors (scheduled_result w video out_dir d ts) = [m]"
proof -
  note g = good [rule_format, of 0] good [rule_format, of "Suc 0"]
    good [rule_format, of "Suc (Suc 0)"] good [rule_format, of "Suc (Suc (Suc 0))"]
  from k consider "k = 0" | "k = Suc 0" | "k = Suc (Suc 0)" | "k = Suc (Suc (Suc 0))"
    by (auto simp: eval_nat_numeral less_Suc_eq)
  then have "written_frames (scheduled_result w video out_dir d ts) = 4
    \<and> errors (scheduled_result w video out_dir d ts) = [m]"
  proof cases
    case 1
    with bad last_ok len g show ?thesis
      by (simp add: scheduled_result_def four_timestamps eval_nat_numeral)
  next
    case 2
    with bad last_ok len g show ?thesis
      by (simp add: scheduled_result_def four_timestamps eval_nat_numeral)
  next
    case 3
    with bad last_ok len g show ?thesis
      by (simp add: scheduled_result_def four_timestamps eval_nat_numeral)
  next
    case 4
    with bad last_ok len g show ?thesis
      by (simp add: scheduled_result_def four_timestamps eval_nat_numeral)
  qed
  then show "written_frames (scheduled_result w video out_dir d ts) = 4"
    and "errors (scheduled_result w video out_dir d ts) = [m]" by simp_all
  show "requested_frames (scheduled_result w video out_dir d ts) = 5"
    using len by (simp add: scheduled_result_def)
qed

lemma last_frame_attempts_scheduled:
  "last_frame_attempts (scheduled_calls video out_dir d ts) = 1"
proof -
  have "filter is_last_frame_call (map (\<lambda>(k, t). ExtractOneFrame video t (f k t)) xs) = []"
    for f and xs :: "(nat \<times> pyfloat) list"
    by (induction xs) auto
  then show ?thesis
    by (simp add: last_frame_attempts_def scheduled_calls_def)
qed

lemma demo_mkdir: "mkdir (demo_world ok fs) p = None"
  by (simp add: demo_world_def)

lemma five_eq: "Suc (Suc (Suc (Suc (Suc 0)))) = 5"
  by simp

lemma enumerate_four: "enumerate_from 1 [a, b, c, d] = [(1, a), (2, b), (3, c), (4, d)]"
  by (simp add: eval_nat_numeral)

lemma demo_scheduled_result:
  "scheduled_result (demo_world True [''60.000'']) demo_video demo_dir
     (Fin 95) [Fin 0, Fin 30, Fin 60, Fin 90]
   = \<lparr>video_path = demo_video, output_dir = demo_dir,
      requested_frames = 5, written_frames = 4,
      errors = [''frame_000003_t60p000.jpg: seek failed'']\<rparr>"
  unfolding scheduled_result_def enumerate_four by (simp add: demo_errors five_eq)

lemma demo_convert_video:
  "convert_video (demo_world True [''60.000'']) demo_video (Fin 30) None
   = Some (Inr \<lparr>video_path = demo_video, output_dir = demo_dir,
                 requested_frames = 5, written_frames = 4,
                 errors = [''frame_000003_t60p000.jpg: seek failed'']\<rparr>,
           scheduled_calls demo_video demo_dir (Fin 95)
             [Fin 0, Fin 30, Fin 60, Fin 90])"
  using convert_video_scheduled [OF demo_mkdir probe_demo build_timestamps_95_30, of "[''60.000'']" None]
  by (simp add: demo_output_dir demo_scheduled_result)

theorem convert_video_written_le_requested_witness:
  "convert_video (demo_world True [''60.000'']) demo_video (Fin 30) None
   = Some (Inr \<lparr>video_path = demo_video, output_dir = demo_dir,
                 requested_frames = 5, written_frames = 4,
                 errors = [''frame_000003_t60p000.jpg: seek failed'']\<rparr>,
           scheduled_calls demo_video demo_dir (Fin 95)
             [Fin 0, Fin 30, Fin 60, Fin 90])
   \<and> probe_duration_seconds (demo_world True [''60.000'']) demo_video = Inr (Fin 95)
   \<and> build_timestamps (Fin 95) (Fin 30) = Some (Inr [Fin 0, Fin 30, Fin 60, Fin 90])
   \<and> (4::int) \<le> 5 \<and> (5::int) = int (length [Fin 0, Fin 30, Fin 60, Fin 90]) + 1"
  using convert_video_written_le_requested [OF demo_convert_video] probe_demo build_timestamps_95_30
    demo_convert_video
  by simp

theorem convert_video_written_plus_errors_witness:
  "convert_video (demo_world True [''60.000'']) demo_video (Fin 30) None
   = Some (Inr \<lparr>video_path = demo_video, output_dir = demo_dir,
                 requested_frames = 5, written_frames = 4,
                 errors = [''frame_000003_t60p000.jpg: seek failed'']\<rparr>,
           scheduled_calls demo_video demo_dir (Fin 95)
             [Fin 0, Fin 30, Fin 60, Fin 90])
   \<and> probe_duration_seconds (demo_world True [''60.000'']) demo_video = Inr (Fin 95)
   \<and> build_timestamps (Fin 95) (Fin 30) = Some (Inr [Fin 0, Fin 30, Fin 60, Fin 90])
   \<and> (4::int) + int (length [''frame_000003_t60p000.jpg: seek failed'']) = 5"
  using convert_video_written_plus_errors [OF demo_convert_video probe_demo build_timestamps_95_30]
    probe_demo build_timestamps_95_30 demo_convert_video
  by simp

text \<open>
  Claim C3, as amended. For every video whose output directory could be made and whose
  probe and scheduling succeed, \<open>extract_last_frame\<close> is attempted exactly once, as the
  final render call, whatever list the scheduler returned. (As stated, for every video
  that \<open>convert_video\<close> processes, the claim fails: a video whose probe fails gets no
  render call at all, see \<open>last_frame_not_attempted_counterexample\<close>.)
\<close>

theorem last_frame_attempted_once:
  assumes "mkdir w (video_output_dir video output_root) = None"
    and "probe_duration_seconds w video = Inr duration"
    and "build_timestamps duration interval = Some (Inr timestamps)"
  shows "\<exists>res calls. convert_video w video interval output_root = Some (Inr res, calls)
    \<and> last_frame_attempts calls = 1
    \<and> last calls = ExtractLastFrame video
         (frame_path_at (video_output_dir video output_root) (length timestamps + 1) duration)"
  using convert_video_scheduled [OF assms]
  by (simp add: last_frame_attempts_scheduled) (simp add: scheduled_calls_def)

theorem last_frame_attempted_once_witness:
  "mkdir (demo_world True []) demo_dir = None
   \<and> probe_duration_seconds (demo_world True []) demo_video = Inr (Fin 95)
   \<and> build_timestamps (Fin 95) (Fin 30) = Some (Inr [Fin 0, Fin 30, Fin 60, Fin 90])
   \<and> (\<exists>res calls. convert_video (demo_world True []) demo_video (Fin 30) None = Some (Inr res, calls)
        \<and> last_frame_attempts calls = 1
        \<and> last calls = ExtractLastFrame demo_video
             \<lparr>anchor = ''/'', parts = [''videos'', ''clip'', ''frame_000005_t95p000.jpg'']\<rparr>)"
  using last_frame_attempted_once [OF demo_mkdir probe_demo build_timestamps_95_30, of "[]" None]
    demo_mkdir [of True "[]"] probe_demo [of "[]"] build_timestamps_95_30
  by (simp add: frame_path_at_def demo_output_dir demo_dir_def five_eq demo_frame_names
      joinpath_def)

theorem last_frame_not_attempted_counterexample:
  "convert_video (demo_world False []) demo_video (Fin 30) None
   = Some (Inr \<lparr>video_path = demo_video, output_dir = demo_dir,
                 requested_frames = 0, written_frames = 0,
                 errors = [''moov atom not found'']\<rparr>, [])
   \<and> last_frame_attempts [] \<noteq> 1"
  by (simp add: convert_video_def Let_def demo_mkdir probe_demo_fails last_frame_attempts_def
      demo_output_dir)

text \<open>
  Claim C4. For every video whose probe and scheduling succeed, a failed per-timestamp
  render is not fatal: the render calls are those of all scheduled timestamps, in order,
  followed by the last-frame call, whatever their outcomes (\<open>scheduled_calls\<close>); each
  failed attempt appends its one message to \<open>errors\<close>; and if exactly one of four
  scheduled renders fails while the other three and the last frame succeed, the result
  has 4 written of 5 requested frames and exactly one error message, which contains the
  name of the failed frame file.
\<close>

theorem convert_video_render_failure_not_fatal:
  assumes "mkdir w (video_output_dir video output_root) = None"
    and "probe_duration_seconds w video = Inr duration"
    and "build_timestamps duration interval = Some (Inr timestamps)"
  shows "\<exists>res. convert_video w video interval output_root
           = Some (Inr res, scheduled_calls video (video_output_dir video output_root)
                              duration timestamps)
    \<and> errors res
        = concat (map (\<lambda>(k, t). option_list
                    (one_frame_error w video (video_output_dir video output_root) k t))
                  (enumerate_from 1 timestamps))
          @ option_list (last_frame_error w video (video_output_dir video output_root)
                           (length timestamps + 1) duration)
    \<and> (\<forall>k m. length timestamps = 4 \<and> k < 4
          \<and> one_frame_error w video (video_output_dir video output_root) (Suc k)
                (timestamps ! k) = Some m
          \<and> (\<forall>j<4. j \<noteq> k \<longrightarrow>
                one_frame_error w video (video_output_dir video output_root) (Suc j)
                  (timestamps ! j) = None)
          \<and> last_frame_error w video (video_output_dir video output_root) 5 duration = None
          \<longrightarrow> written_frames res = 4 \<and> requested_frames res = 5 \<and> errors res = [m]
              \<and> (\<exists>pre post. m = pre @ output_frame_name (Suc k) (timestamps ! k) @ post))"
proof -
  let ?out = "video_output_dir video output_root"
  let ?res = "scheduled_result w video ?out duration timestamps"
  have run: "convert_video w video interval output_root
    = Some (Inr ?res, scheduled_calls video ?out duration timestamps)"
    by (rule convert_video_scheduled [OF assms])
  have errs: "errors ?res
        = concat (map (\<lambda>(k, t). option_list (one_frame_error w video ?out k t))
                  (enumerate_from 1 timestamps))
          @ option_list (last_frame_error w video ?out (length timestamps + 1) duration)"
    by (simp add: scheduled_result_def)
  have scenario: "written_frames ?res = 4 \<and> requested_frames ?res = 5 \<and> errors ?res = [m]
      \<and> (\<exists>pre post. m = pre @ output_frame_name (Suc k) (timestamps ! k) @ post)"
    if h: "length timestamps = 4 \<and> k < 4
          \<and> one_frame_error w video ?out (Suc k) (timestamps ! k) = Some m
          \<and> (\<forall>j<4. j \<noteq> k \<longrightarrow> one_frame_error w video ?out (Suc j) (timestamps ! j) = None)
          \<and> last_frame_error w video ?out 5 duration = None" for k m
  proof -
    note r = one_of_four_fails [of timestamps k w video ?out m duration]
    from h r have "written_frames ?res = 4" by blast
    moreover from h r have "requested_frames ?res = 5" by blast
    moreover from h r have "errors ?res = [m]" by blast
    moreover from h have "\<exists>pre post. m = pre @ output_frame_name (Suc k) (timestamps ! k) @ post"
      using one_frame_error_names_file by blast
    ultimately show ?thesis by blast
  qed
  from run errs scenario show ?thesis by blast
qed

theorem convert_video_render_failure_not_fatal_witness:
  "mkdir (demo_world True [''60.000'']) demo_dir = None
   \<and> probe_duration_seconds (demo_world True [''60.000'']) demo_video = Inr (Fin 95)
   \<and> build_timestamps (Fin 95) (Fin 30) = Some (Inr [Fin 0, Fin 30, Fin 60, Fin 90])
   \<and> (\<exists>res. convert_video (demo_world True [''60.000'']) demo_video (Fin 30) None
          = Some (Inr res, scheduled_calls demo_video demo_dir (Fin 95)
                             [Fin 0, Fin 30, Fin 60, Fin 90])
        \<and> written_frames res = 4 \<and> requested_frames res = 5
        \<and> errors res = [''frame_000003_t60p000.jpg: seek failed''])"
proof -
  from convert_video_render_failure_not_fatal [OF demo_mkdir probe_demo build_timestamps_95_30,
      of "[''60.000'']" None, unfolded demo_output_dir]
  obtain res where c: "convert_video (demo_world True [''60.000'']) demo_video (Fin 30) None
          = Some (Inr res, scheduled_calls demo_video demo_dir (Fin 95)
                             [Fin 0, Fin 30, Fin 60, Fin 90])"
    and sc: "\<forall>k m. length [Fin 0, Fin 30, Fin 60, Fin 90] = 4 \<and> k < 4
          \<and> one_frame_error (demo_world True [''60.000'']) demo_video
                demo_dir (Suc k)
                ([Fin 0, Fin 30, Fin 60, Fin 90] ! k) = Some m
          \<and> (\<forall>j<4. j \<noteq> k \<longrightarrow>
                one_frame_error (demo_world True [''60.000'']) demo_video
                  demo_dir (Suc j)
                  ([Fin 0, Fin 30, Fin 60, Fin 90] ! j) = None)
          \<and> last_frame_error (demo_world True [''60.000'']) demo_video
                demo_dir 5 (Fin 95) = None
          \<longrightarrow> written_frames res = 4 \<and> requested_frames res = 5 \<and> errors res = [m]
              \<and> (\<exists>pre post. m = pre @ output_frame_name (Suc k)
                    ([Fin 0, Fin 30, Fin 60, Fin 90] ! k) @ post)"
    by blast
  have others: "\<forall>j<4. j \<noteq> 2 \<longrightarrow>
      one_frame_error (demo_world True [''60.000'']) demo_video
        demo_dir (Suc j) ([Fin 0, Fin 30, Fin 60, Fin 90] ! j) = None"
  proof (intro allI impI)
    fix j :: nat
    assume "j < 4" and "j \<noteq> 2"
    then consider "j = 0" | "j = 1" | "j = 3" by linarith
    then show "one_frame_error (demo_world True [''60.000'']) demo_video
        demo_dir (Suc j) ([Fin 0, Fin 30, Fin 60, Fin 90] ! j) = None"
      using demo_errors(1,2,4) by cases (simp_all add: eval_nat_numeral)
  qed
  have bad: "one_frame_error (demo_world True [''60.000'']) demo_video
      demo_dir (Suc 2) ([Fin 0, Fin 30, Fin 60, Fin 90] ! 2)
      = Some ''frame_000003_t60p000.jpg: seek failed''"
    using demo_errors(3) by (simp add: eval_nat_numeral)
  from sc [rule_format, of 2 "''frame_000003_t60p000.jpg: seek failed''"] bad others demo_errors(5)
  have "written_frames res = 4 \<and> requested_frames res = 5
      \<and> errors res = [''frame_000003_t60p000.jpg: seek failed'']"
    by simp
  with c demo_mkdir [of True "[''60.000'']"] probe_demo [of "[''60.000'']"] build_timestamps_95_30
  show ?thesis by blast
qed

section \<open>The QA sampler and the exit code\<close>

lemma candidate_dirs_empty_sampling:
  assumes "candidate_dirs w results = []"
  shows "run_quality_sampling lib w results sample_dirs sample_images seed
           = (Inr (0, 0, [''No converted directories available for sampling.'']), [])"
  using assms by (simp add: run_quality_sampling_def Let_def)

lemma validate_images_cong:
  assumes "\<forall>p\<in>set images. validate_jpg w1 p = validate_jpg w2 p"
  shows "validate_images w1 images st = validate_images w2 images st"
  using assms by (induction images arbitrary: st) (simp_all add: Let_def)

lemma rng_sample_subset:
  assumes "drawn_from_population lib" and "rng_sample lib g population k = Inr (chosen, g')"
  shows "set chosen \<subseteq> set population"
proof -
  from assms(2) have "chosen = fst (draw lib g population (nat k))"
    by (auto simp: rng_sample_def split: if_splits)
  with assms(1) show ?thesis by (simp add: drawn_from_population_def)
qed

lemma sample_folders_cong:
  fixes lib :: "'g random_lib" and st :: "'g qa_state"
  assumes lib: "drawn_from_population lib"
    and jpgs: "\<forall>d\<in>set folders. list_jpgs w1 d = list_jpgs w2 d"
    and val: "\<forall>d\<in>set folders. \<forall>p\<in>set (list_jpgs w1 d). validate_jpg w1 p = validate_jpg w2 p"
  shows "sample_folders lib w1 n folders st = sample_folders lib w2 n folders st"
  using jpgs val
proof (induction folders arbitrary: st)
  case Nil
  show ?case by simp
next
  case (Cons folder rest)
  from Cons.prems have same: "list_jpgs w1 folder = list_jpgs w2 folder" by simp
  have IH: "sample_folders lib w1 n rest st' = sample_folders lib w2 n rest st'"
    for st' :: "'g qa_state"
    using Cons.IH Cons.prems by simp
  show ?case
  proof (cases "list_jpgs w2 folder = []")
    case True
    with same IH show ?thesis by (simp add: Let_def)
  next
    case False
    show ?thesis
    proof (cases "rng_sample lib (qa_rng st) (list_jpgs w2 folder)
                    (min n (int (length (list_jpgs w2 folder))))")
      case (Inl exc)
      with same False show ?thesis by (simp add: Let_def)
    next
      case (Inr r)
      obtain chosen g where r: "r = (chosen, g)" by (cases r)
      from rng_sample_subset [OF lib Inr [unfolded r]]
      have "set chosen \<subseteq> set (list_jpgs w1 folder)" by (simp add: same)
      with Cons.prems(2) have "\<forall>p\<in>set chosen. validate_jpg w1 p = validate_jpg w2 p" by auto
      then have "validate_images w1 chosen st' = validate_images w2 chosen st'"
        for st' :: "'g qa_state"
        by (rule validate_images_cong)
      with same False Inr r IH show ?thesis by (simp add: Let_def)
    qed
  qed
qed

text \<open>
  Claim C8. For every seed, sample sizes and list of results, two runs of
  \<open>run_quality_sampling\<close> with the same seed and the same candidate pool (the same
  candidate directories, the same image listing for each of them, and the same
  validation verdict for each listed image) select the same directories and images and
  report the same pass/fail outcomes: the value returned and the calls made are equal.
  The two runs may differ in everything else: the worlds outside the pool, and the
  results that are not candidates.
\<close>

theorem run_quality_sampling_deterministic:
  fixes lib :: "'g random_lib"
  assumes "drawn_from_population lib"
    and "candidate_dirs w1 results1 = candidate_dirs w2 results2"
    and "\<forall>d\<in>set (candidate_dirs w1 results1). list_jpgs w1 d = list_jpgs w2 d"
    and "\<forall>d\<in>set (candidate_dirs w1 results1). \<forall>p\<in>set (list_jpgs w1 d).
           validate_jpg w1 p = validate_jpg w2 p"
  shows "run_quality_sampling lib w1 results1 sample_dirs sample_images seed
       = run_quality_sampling lib w2 results2 sample_dirs sample_images seed"
proof (cases "candidate_dirs w2 results2 = []")
  case True
  with assms(2) show ?thesis by (simp add: run_quality_sampling_def Let_def)
next
  case False
  let ?c = "candidate_dirs w2 results2"
  show ?thesis
  proof (cases "rng_sample lib (seed_rng lib seed) ?c (min sample_dirs (int (length ?c)))")
    case (Inl exc)
    with assms(2) False show ?thesis by (simp add: run_quality_sampling_def Let_def)
  next
    case (Inr r)
    obtain chosen g where r: "r = (chosen, g)" by (cases r)
    from rng_sample_subset [OF assms(1) Inr [unfolded r]] have sub: "set chosen \<subseteq> set ?c" .
    have "sample_folders lib w1 sample_images chosen st = sample_folders lib w2 sample_images chosen st"
      for st :: "'g qa_state"
      using assms(3,4) sub unfolding assms(2)
      by (intro sample_folders_cong [OF assms(1)]) auto
    with assms(2) False Inr r show ?thesis by (simp add: run_quality_sampling_def Let_def)
  qed
qed

text \<open>
  Claim C10. When the candidate pool is empty (no result has \<open>written_frames > 0\<close>
  and an existing output directory), \<open>run_quality_sampling\<close> returns
  \<open>(0, 0, [message])\<close> with one informational message, and makes no call: it samples
  nothing and validates no image.
\<close>

theorem run_quality_sampling_empty_pool:
  assumes "\<forall>res\<in>set results. \<not> (0 < written_frames res \<and> dir_exists w (output_dir res))"
  shows "run_quality_sampling lib w results sample_dirs sample_images seed
           = (Inr (0, 0, [''No converted directories available for sampling.'']), [])"
proof -
  from assms have "candidate_dirs w results = []"
    by (auto simp: candidate_dirs_def filter_empty_conv)
  then show ?thesis by (rule candidate_dirs_empty_sampling)
qed

subsection \<open>The exit code\<close>

lemma scheduled_result_written_nonneg: "0 \<le> written_frames (scheduled_result w video out_dir d ts)"
  by (simp add: scheduled_result_def)

lemma convert_video_result_shape:
  assumes "convert_video w video interval output_root = Some (Inr res, calls)"
  shows "(errors res \<noteq> [] \<and> written_frames res = 0 \<and> requested_frames res = 0)
    \<or> (0 \<le> written_frames res \<and> 1 \<le> requested_frames res
        \<and> written_frames res + int (length (errors res)) = requested_frames res)"
  using assms
proof (cases rule: convert_video_cases)
  case (probe_failed exc)
  then show ?thesis by (simp add: failed_result_def)
next
  case (schedule_failed duration exc)
  then show ?thesis by (simp add: failed_result_def)
next
  case (scheduled duration timestamps)
  let ?r = "scheduled_result w video (video_output_dir video output_root) duration timestamps"
  have "written_frames ?r + int (length (errors ?r)) = requested_frames ?r"
    by (rule scheduled_result_count)
  moreover have "1 \<le> requested_frames ?r"
    by (simp add: scheduled_result_def)
  moreover have "0 \<le> written_frames ?r"
    by (rule scheduled_result_written_nonneg)
  ultimately show ?thesis unfolding scheduled(3) by blast
qed

lemma convert_video_issue_iff:
  assumes "convert_video w video interval output_root = Some (Inr res, calls)"
  shows "(written_frames res = 0 \<or> errors res \<noteq> [])
           = (\<not> (errors res = [] \<and> written_frames res = requested_frames res))"
    and "(written_frames res = 0 \<or> errors res \<noteq> [])
           = (written_frames res < requested_frames res \<or> errors res \<noteq> []
              \<or> written_frames res = 0)"
  using convert_video_result_shape [OF assms] by (cases "errors res"; auto)+

lemma sample_folders_returns:
  assumes "0 \<le> n"
  shows "fst (sample_folders lib w n folders st) = None"
proof (induction folders arbitrary: st)
  case Nil
  show ?case by simp
next
  case (Cons folder rest)
  show ?case
  proof (cases "list_jpgs w folder = []")
    case True
    then show ?thesis by (simp add: Let_def Cons.IH)
  next
    case False
    with assms show ?thesis
      by (simp add: Let_def rng_sample_def Cons.IH split: prod.splits)
  qed
qed

lemma run_quality_sampling_returns:
  assumes "0 \<le> sample_dirs" and "0 \<le> sample_images"
  shows "\<exists>report. fst (run_quality_sampling lib w results sample_dirs sample_images seed)
           = Inr report"
proof (cases "candidate_dirs w results = []")
  case True
  then show ?thesis by (simp add: run_quality_sampling_def Let_def)
next
  case False
  obtain chosen g where d: "draw lib (seed_rng lib seed) (candidate_dirs w results)
      (nat (min sample_dirs (int (length (candidate_dirs w results))))) = (chosen, g)"
    by (cases "draw lib (seed_rng lib seed) (candidate_dirs w results)
      (nat (min sample_dirs (int (length (candidate_dirs w results)))))")
  obtain exc st where f: "sample_folders lib w sample_images chosen
      \<lparr>qa_rng = g, qa_checked = 0, qa_passed = 0, qa_messages = [],
       qa_calls = [SampleDirs chosen]\<rparr> = (exc, st)"
    by (cases "sample_folders lib w sample_images chosen
      \<lparr>qa_rng = g, qa_checked = 0, qa_passed = 0, qa_messages = [],
       qa_calls = [SampleDirs chosen]\<rparr>")
  from sample_folders_returns [OF assms(2), of lib w chosen] f have "exc = None"
    by (metis fst_conv)
  with False assms(1) d f show ?thesis
    by (simp add: run_quality_sampling_def Let_def rng_sample_def)
qed

lemma main_exit_code_collected:
  assumes made: "\<forall>res\<in>set results. \<exists>w' video interval output_root calls.
             convert_video w' video interval output_root = Some (Inr res, calls)"
    and qa: "0 \<le> sample_dirs" "0 \<le> sample_images"
  shows "main_exit_code lib w results sample_dirs sample_images seed
           = (if \<forall>res\<in>set results. errors res = [] \<and> written_frames res = requested_frames res
              then 0 else 1)"
    and "failed_videos results
           = filter (\<lambda>res. written_frames res < requested_frames res \<or> errors res \<noteq> []
                            \<or> written_frames res = 0) results"
proof -
  from run_quality_sampling_returns [OF qa] obtain report
    where "fst (run_quality_sampling lib w results sample_dirs sample_images seed) = Inr report"
    by blast
  then have code: "main_exit_code lib w results sample_dirs sample_images seed
      = (if failed_videos results \<noteq> [] then 1 else 0)"
    by (simp add: main_exit_code_def)
  have iff: "(written_frames res = 0 \<or> errors res \<noteq> [])
           = (\<not> (errors res = [] \<and> written_frames res = requested_frames res))"
    and iff2: "(written_frames res = 0 \<or> errors res \<noteq> [])
           = (written_frames res < requested_frames res \<or> errors res \<noteq> []
              \<or> written_frames res = 0)"
    if "res \<in> set results" for res
    using made that convert_video_issue_iff by blast+
  have "(failed_videos results = [])
      = (\<forall>res\<in>set results. errors res = [] \<and> written_frames res = requested_frames res)"
    unfolding failed_videos_def filter_empty_conv using iff by blast
  with code show "main_exit_code lib w results sample_dirs sample_images seed
           = (if \<forall>res\<in>set results. errors res = [] \<and> written_frames res = requested_frames res
              then 0 else 1)" by simp
  show "failed_videos results
           = filter (\<lambda>res. written_frames res < requested_frames res \<or> errors res \<noteq> []
                            \<or> written_frames res = 0) results"
    unfolding failed_videos_def using iff2 by (intro filter_cong) auto
qed

subsection \<open>The example run, sampled\<close>

lemma demo_lib_draws: "drawn_from_population demo_lib"
  by (auto simp: drawn_from_population_def demo_lib_def dest: in_set_takeD)

lemma demo_candidates:
  "candidate_dirs (demo_world ok fs) [demo_result 5 []] = [demo_dir]"
  "candidate_dirs (demo_world ok fs) [demo_result 5 [], demo_result 0 [''moov atom not found'']]
     = [demo_dir]"
  by (simp_all add: candidate_dirs_def demo_result_def demo_world_def)

lemma demo_list_jpgs:
  "list_jpgs (demo_world ok fs) p = list_jpgs (demo_world ok' fs') p"
  by (simp add: demo_world_def)

lemma demo_validate_jpg:
  "validate_jpg (demo_world ok fs) p = validate_jpg (demo_world ok' fs') p"
  by (simp add: demo_world_def)

lemma demo_sampling:
  "run_quality_sampling demo_lib (demo_world True []) [demo_result 5 []] 3 3 42
   = (Inr (2, 1, [''[OK] /videos/clip/frame_000001_t0p000.jpg -> 1920x1080, codec=mjpeg'',
                  ''[FAIL] /videos/clip/frame_000002_t30p000.jpg -> Unexpected codec png'']),
      [SampleDirs [demo_dir],
       SampleImages demo_dir [joinpath demo_dir ''frame_000001_t0p000.jpg'',
                              joinpath demo_dir ''frame_000002_t30p000.jpg''],
       ValidateJpg (joinpath demo_dir ''frame_000001_t0p000.jpg''),
       ValidateJpg (joinpath demo_dir ''frame_000002_t30p000.jpg'')])"
proof -
  have images: "list_jpgs (demo_world True []) demo_dir
      = [joinpath demo_dir ''frame_000001_t0p000.jpg'',
         joinpath demo_dir ''frame_000002_t30p000.jpg'']"
    by (simp add: demo_world_def)
  have verdicts:
    "validate_jpg (demo_world True []) (joinpath demo_dir ''frame_000001_t0p000.jpg'')
       = (True, ''1920x1080, codec=mjpeg'')"
    "validate_jpg (demo_world True []) (joinpath demo_dir ''frame_000002_t30p000.jpg'')
       = (False, ''Unexpected codec png'')"
    by (simp_all add: demo_world_def joinpath_def path_name_def)
  have names:
    "path_str (joinpath demo_dir ''frame_000001_t0p000.jpg'')
       = ''/videos/clip/frame_000001_t0p000.jpg''"
    "path_str (joinpath demo_dir ''frame_000002_t30p000.jpg'')
       = ''/videos/clip/frame_000002_t30p000.jpg''"
    by (simp_all add: joinpath_def demo_dir_def path_str_def)
  show ?thesis
    by (simp add: run_quality_sampling_def demo_candidates Let_def rng_sample_def demo_lib_def
        images verdicts names)
qed

theorem run_quality_sampling_deterministic_witness:
  "drawn_from_population demo_lib
   \<and> candidate_dirs (demo_world True []) [demo_result 5 []]
       = candidate_dirs (demo_world False [''60.000''])
           [demo_result 5 [], demo_result 0 [''moov atom not found'']]
   \<and> run_quality_sampling demo_lib (demo_world True []) [demo_result 5 []] 3 3 42
       = run_quality_sampling demo_lib (demo_world False [''60.000''])
           [demo_result 5 [], demo_result 0 [''moov atom not found'']] 3 3 42
   \<and> fst (run_quality_sampling demo_lib (demo_world False [''60.000''])
           [demo_result 5 [], demo_result 0 [''moov atom not found'']] 3 3 42)
       = Inr (2, 1, [''[OK] /videos/clip/frame_000001_t0p000.jpg -> 1920x1080, codec=mjpeg'',
                     ''[FAIL] /videos/clip/frame_000002_t30p000.jpg -> Unexpected codec png''])"
proof -
  have c: "candidate_dirs (demo_world True []) [demo_result 5 []]
       = candidate_dirs (demo_world False [''60.000''])
           [demo_result 5 [], demo_result 0 [''moov atom not found'']]"
    by (simp add: demo_candidates)
  have l: "\<forall>d\<in>set (candidate_dirs (demo_world True []) [demo_result 5 []]).
      list_jpgs (demo_world True []) d = list_jpgs (demo_world False [''60.000'']) d"
    by (simp add: demo_list_jpgs [of True "[]" _ False "[''60.000'']"])
  have v: "\<forall>d\<in>set (candidate_dirs (demo_world True []) [demo_result 5 []]).
      \<forall>p\<in>set (list_jpgs (demo_world True []) d).
        validate_jpg (demo_world True []) p = validate_jpg (demo_world False [''60.000'']) p"
    by (simp add: demo_validate_jpg [of True "[]" _ False "[''60.000'']"])
  note same = run_quality_sampling_deterministic [OF demo_lib_draws c l v, of 3 3 42]
  have "fst (run_quality_sampling demo_lib (demo_world False [''60.000''])
           [demo_result 5 [], demo_result 0 [''moov atom not found'']] 3 3 42)
       = Inr (2, 1, [''[OK] /videos/clip/frame_000001_t0p000.jpg -> 1920x1080, codec=mjpeg'',
                     ''[FAIL] /videos/clip/frame_000002_t30p000.jpg -> Unexpected codec png''])"
    unfolding same [symmetric] by (simp add: demo_sampling)
  with same c demo_lib_draws show ?thesis by blast
qed

theorem run_quality_sampling_empty_pool_witness:
  "written_frames (demo_result 0 [''moov atom not found'']) = 0
   \<and> candidate_dirs (demo_world False []) [demo_result 0 [''moov atom not found'']] = []
   \<and> run_quality_sampling demo_lib (demo_world False []) [demo_result 0 [''moov atom not found'']] 3 3 42
       = (Inr (0, 0, [''No converted directories available for sampling.'']), [])"
proof -
  have h: "\<forall>res\<in>set [demo_result 0 [''moov atom not found'']].
      \<not> (0 < written_frames res \<and> dir_exists (demo_world False []) (output_dir res))"
    by (simp add: demo_result_def)
  from run_quality_sampling_empty_pool [OF h, of demo_lib 3 3 42] show ?thesis
    by (simp add: demo_result_def candidate_dirs_def)
qed

lemma demo_convert_video_ok:
  "convert_video (demo_world True []) demo_video (Fin 30) None
   = Some (Inr (demo_result 5 []),
           scheduled_calls demo_video demo_dir (Fin 95) [Fin 0, Fin 30, Fin 60, Fin 90])"
proof -
  have "scheduled_result (demo_world True []) demo_video demo_dir (Fin 95)
      [Fin 0, Fin 30, Fin 60, Fin 90] = demo_result 5 []"
    unfolding scheduled_result_def enumerate_four
    by (simp add: demo_one_frame_error demo_last_frame_error demo_result_def)
  with convert_video_scheduled [OF demo_mkdir probe_demo build_timestamps_95_30, of "[]" None]
  show ?thesis by (simp add: demo_output_dir)
qed

text \<open>
  Claim C5. Given the results that \<open>main\<close> collected, the exit code is 0 if and only if
  every processed video had zero errors and full frame counts, and 1 otherwise. The
  lemma \<open>main_exit_code_collected\<close> above proves this, and that the videos "with
  issues" are those with \<open>written < requested\<close>, a non-empty error list or zero frames
  written, for the results of \<open>convert_video\<close> whenever both QA sample counts are
  non-negative. The code departs from the claim at a negative \<open>--sample-dirs\<close>, which
  \<open>main\<close> passes on unchecked: \<open>random.sample\<close> raises \<open>ValueError\<close>, nothing catches
  it, and the process ends with status 1 although the only video has 5 of 5 frames and
  no error. The same results give 0 with the default sample counts.
\<close>

theorem main_exit_code_negative_sample_dirs:
  "convert_video (demo_world True []) demo_video (Fin 30) None
     = Some (Inr (demo_result 5 []),
             scheduled_calls demo_video demo_dir (Fin 95) [Fin 0, Fin 30, Fin 60, Fin 90])
   \<and> errors (demo_result 5 []) = []
   \<and> written_frames (demo_result 5 []) = requested_frames (demo_result 5 [])
   \<and> failed_videos [demo_result 5 []] = []
   \<and> run_quality_sampling demo_lib (demo_world True []) [demo_result 5 []] (- 1) 3 42
       = (Inl (ValueError ''Sample larger than population or is negative''), [])
   \<and> main_exit_code demo_lib (demo_world True []) [demo_result 5 []] (- 1) 3 42 = 1
   \<and> main_exit_code demo_lib (demo_world True []) [demo_result 5 []] 3 3 42 = 0"
proof -
  have q: "run_quality_sampling demo_lib (demo_world True []) [demo_result 5 []] (- 1) 3 42
       = (Inl (ValueError ''Sample larger than population or is negative''), [])"
    by (simp add: run_quality_sampling_def demo_candidates Let_def rng_sample_def)
  have f: "failed_videos [demo_result 5 []] = []"
    by (simp add: failed_videos_def demo_result_def)
  show ?thesis
    using demo_convert_video_ok q f
    by (simp add: main_exit_code_def demo_sampling) (simp add: demo_result_def)
qed

end
